theory Spec2Isabelle
  imports Main "HOL-Library.Sublist" "HOL-Library.Monad_Syntax" "HOL-Library.Multiset"
begin

section \<open>The Go library functions the program calls\<close>

text \<open>
  The program is \<^verbatim>\<open>src/googlephotos2nextcloud.go\<close>, the variant with the EXIF fallback,
  the directory provisioning and the retrying upload (the second \<^verbatim>\<open>package main\<close> of the
  file). It is built with Go 1.24 and runs in a Linux container, so paths are slash
  separated. The library functions it calls are modelled here as far as the program
  depends on them; strings are byte lists, as in Go.
\<close>

subsection \<open>Package strings\<close>

text \<open>\<^verbatim>\<open>strings.Count(s, ".")\<close> for a one-byte separator: the number of its occurrences.\<close>

definition strings_Count :: "string \<Rightarrow> char \<Rightarrow> nat" where
  "strings_Count s c = length (filter (\<lambda>x. x = c) s)"

fun strings_Contains :: "string \<Rightarrow> string \<Rightarrow> bool" where
  "strings_Contains [] sub = (sub = [])"
| "strings_Contains (c # cs) sub = (prefix sub (c # cs) \<or> strings_Contains cs sub)"

text \<open>\<^verbatim>\<open>strings.Split(s, "/")\<close> for a one-byte separator; the result is never empty.\<close>

fun strings_Split :: "string \<Rightarrow> char \<Rightarrow> string list" where
  "strings_Split [] sep = [[]]"
| "strings_Split (c # cs) sep =
     (if c = sep then [] # strings_Split cs sep
      else (case strings_Split cs sep of
              [] \<Rightarrow> [[c]]
            | p # ps \<Rightarrow> (c # p) # ps))"

subsection \<open>Package path/filepath, on a slash-separated system\<close>

definition isSep :: "char \<Rightarrow> bool" where
  "isSep c = (c = CHR ''/'')"

text \<open>
  \<^verbatim>\<open>filepath.Ext\<close>: the suffix of the last path element that starts at its last dot,
  empty when that element has no dot.
\<close>

definition filepath_Ext :: "string \<Rightarrow> string" where
  "filepath_Ext path =
     (let lastElem = takeWhile (\<lambda>c. \<not> isSep c) (rev path)
      in if CHR ''.'' \<in> set lastElem
         then CHR ''.'' # rev (takeWhile (\<lambda>c. c \<noteq> CHR ''.'') lastElem)
         else [])"

text \<open>
  \<^verbatim>\<open>filepath.Clean\<close>, as a stack of path elements: empty elements and \<^verbatim>\<open>.\<close> are
  dropped, \<^verbatim>\<open>..\<close> removes the element before it, is kept at the front of a relative
  path and dropped at the root; the empty result is \<^verbatim>\<open>.\<close>.
\<close>

fun cleanElems :: "bool \<Rightarrow> string list \<Rightarrow> string list \<Rightarrow> string list" where
  "cleanElems rooted stack [] = rev stack"
| "cleanElems rooted stack (e # es) =
     (if e = [] \<or> e = ''.'' then cleanElems rooted stack es
      else if e = ''..'' then
        (case stack of
           prev # below \<Rightarrow>
             if prev = ''..'' then cleanElems rooted (e # stack) es
             else cleanElems rooted below es
         | [] \<Rightarrow> if rooted then cleanElems rooted [] es else cleanElems rooted [e] es)
      else cleanElems rooted (e # stack) es)"

fun joinSep :: "string list \<Rightarrow> string" where
  "joinSep [] = []"
| "joinSep [e] = e"
| "joinSep (e # es) = e @ ''/'' @ joinSep es"

definition filepath_Clean :: "string \<Rightarrow> string" where
  "filepath_Clean path =
     (if path = [] then ''.''
      else let rooted = isSep (hd path);
               out = (if rooted then ''/'' else []) @
                     joinSep (cleanElems rooted [] (strings_Split path CHR ''/''))
           in if out = [] then ''.'' else out)"

text \<open>\<^verbatim>\<open>filepath.Dir\<close>: everything up to the last separator, cleaned.\<close>

definition filepath_Dir :: "string \<Rightarrow> string" where
  "filepath_Dir path = filepath_Clean (rev (dropWhile (\<lambda>c. \<not> isSep c) (rev path)))"

text \<open>
  \<^verbatim>\<open>filepath.Join\<close> of two elements: leading empty elements are skipped, the rest is
  joined by the separator and cleaned.
\<close>

definition filepath_Join :: "string \<Rightarrow> string \<Rightarrow> string" where
  "filepath_Join a b =
     (if a \<noteq> [] then filepath_Clean (a @ ''/'' @ b)
      else if b \<noteq> [] then filepath_Clean b
      else [])"

text \<open>
  \<^verbatim>\<open>filepath.Base\<close>: the last element after trailing separators are removed;
  \<^verbatim>\<open>.\<close> for the empty path and the separator for a path of separators only.
\<close>

definition filepath_Base :: "string \<Rightarrow> string" where
  "filepath_Base path =
     (if path = [] then ''.''
      else let stripped = rev (dropWhile isSep (rev path));
               lastElem = rev (takeWhile (\<lambda>c. \<not> isSep c) (rev stripped))
           in if lastElem = [] then ''/'' else lastElem)"

subsection \<open>Decimal digits\<close>

definition isDigit :: "char \<Rightarrow> bool" where
  "isDigit c = (c \<in> set ''0123456789'')"

definition digitVal :: "char \<Rightarrow> int" where
  "digitVal c = of_char c - 48"

definition digitsVal :: "string \<Rightarrow> int" where
  "digitsVal s = foldl (\<lambda>a c. 10 * a + digitVal c) 0 s"

definition digitChar :: "int \<Rightarrow> char" where
  "digitChar d = ''0123456789'' ! nat d"

text \<open>The decimal digits of a number that is not negative.\<close>

function decimal :: "int \<Rightarrow> string" where
  "decimal n = (if n < 10 then [digitChar n] else decimal (n div 10) @ [digitChar (n mod 10)])"
  by pat_completeness auto
termination
  by (relation "measure nat") auto

declare decimal.simps [simp del]

text \<open>
  \<^verbatim>\<open>appendInt(b, x, width)\<close> of package time: a minus sign for a negative number, then
  the decimal digits of its absolute value, padded with zeros on the left to the width.
\<close>

definition appendInt :: "int \<Rightarrow> nat \<Rightarrow> string" where
  "appendInt x width =
     (let ds = decimal \<bar>x\<bar>
      in (if x < 0 then ''-'' else []) @ replicate (width - length ds) CHR ''0'' @ ds)"

subsection \<open>Package strconv\<close>

text \<open>
  \<^verbatim>\<open>strconv.ParseInt(s, 10, 64)\<close>: an optional sign, then at least one decimal digit and
  nothing else; a value outside the signed 64-bit range is an error.
\<close>

definition strconv_ParseInt :: "string \<Rightarrow> int option" where
  "strconv_ParseInt s =
     (let neg = (s \<noteq> [] \<and> hd s = CHR ''-'');
          ds = (if s \<noteq> [] \<and> (hd s = CHR ''-'' \<or> hd s = CHR ''+'') then tl s else s)
      in if ds = [] \<or> \<not> list_all isDigit ds then None
         else let un = digitsVal ds
              in if \<not> neg \<and> un \<ge> 2 ^ 63 then None
                 else if neg \<and> un > 2 ^ 63 then None
                 else Some (if neg then - un else un))"

subsection \<open>Package time\<close>

definition isLeap :: "int \<Rightarrow> bool" where
  "isLeap year = (year mod 4 = 0 \<and> (year mod 100 \<noteq> 0 \<or> year mod 400 = 0))"

definition daysIn :: "int \<Rightarrow> int \<Rightarrow> int" where
  "daysIn month year =
     (if month = 2 then (if isLeap year then 29 else 28)
      else if month \<in> {4, 6, 9, 11} then 30 else 31)"

text \<open>\<^verbatim>\<open>getnum\<close>: one or two digits, exactly two when \<open>fixed\<close>.\<close>

fun getnum :: "string \<Rightarrow> bool \<Rightarrow> (int \<times> string) option" where
  "getnum [] fixed = None"
| "getnum [a] fixed =
     (if \<not> isDigit a then None else if fixed then None else Some (digitVal a, []))"
| "getnum (a # b # rest) fixed =
     (if \<not> isDigit a then None
      else if \<not> isDigit b then (if fixed then None else Some (digitVal a, b # rest))
      else Some (digitVal a * 10 + digitVal b, rest))"

text \<open>The four-digit year of the layout element \<^verbatim>\<open>2006\<close>.\<close>

definition getyear :: "string \<Rightarrow> (int \<times> string) option" where
  "getyear v =
     (if length v < 4 \<or> \<not> list_all isDigit (take 4 v) then None
      else Some (digitsVal (take 4 v), drop 4 v))"

text \<open>A literal byte of the layout.\<close>

fun skip :: "char \<Rightarrow> string \<Rightarrow> string option" where
  "skip c [] = None"
| "skip c (x # xs) = (if x = c then Some xs else None)"

text \<open>
  After the seconds field the parser accepts a fractional second although the layout has
  none: a period or comma followed by at least one digit, with all the digits after it.
\<close>

definition skipFraction :: "string \<Rightarrow> string" where
  "skipFraction v =
     (case v of
        c # d # rest \<Rightarrow>
          if (c = CHR ''.'' \<or> c = CHR '','') \<and> isDigit d then dropWhile isDigit rest else v
      | _ \<Rightarrow> v)"

text \<open>
  \<^verbatim>\<open>time.Parse("2006-01-02T15:04:05Z", value)\<close>, reduced to what the program reads of the
  result: the year and the month of the parsed time, which is in UTC. The hour may have
  one digit, every other field has its full width; the day is checked against the month
  last.
\<close>

definition time_Parse :: "string \<Rightarrow> (int \<times> int) option" where
  "time_Parse v0 = do {
     (year, v1) \<leftarrow> getyear v0;
     v2 \<leftarrow> skip CHR ''-'' v1;
     (month, v3) \<leftarrow> getnum v2 True;
     v4 \<leftarrow> skip CHR ''-'' v3;
     (day, v5) \<leftarrow> getnum v4 True;
     v6 \<leftarrow> skip CHR ''T'' v5;
     (hour, v7) \<leftarrow> getnum v6 False;
     v8 \<leftarrow> skip CHR '':'' v7;
     (minute, v9) \<leftarrow> getnum v8 True;
     v10 \<leftarrow> skip CHR '':'' v9;
     (sec, v11) \<leftarrow> getnum v10 True;
     v12 \<leftarrow> skip CHR ''Z'' (skipFraction v11);
     if month \<le> 0 \<or> 12 < month \<or> 24 \<le> hour \<or> 60 \<le> minute \<or> 60 \<le> sec \<or> v12 \<noteq> []
        \<or> day < 1 \<or> day > daysIn month year
     then None
     else Some (year, month)
   }"

text \<open>
  The civil year and month of a count of seconds since 1970-01-01T00:00:00 in the
  proleptic Gregorian calendar, which is the calendar of \<^verbatim>\<open>time.Time\<close>. A \<^verbatim>\<open>time.Time\<close>
  keeps its seconds in 64 bits; the function is what \<^verbatim>\<open>Format\<close> shows for every instant
  that is kept without wrap-around, which covers the years of four and five digits
  used below. Only timestamps within some 260 years of the least 64-bit integer, more
  than 292 billion years before 1970, wrap around in the program and are shown as a year
  of the far future; there the function gives the negative year instead.
\<close>

definition civilYearMonth :: "int \<Rightarrow> int \<times> int" where
  "civilYearMonth secs =
     (let z = secs div 86400 + 719468;
          era = z div 146097;
          doe = z mod 146097;
          yoe = (doe - doe div 1460 + doe div 36524 - doe div 146096) div 365;
          doy = doe - (365 * yoe + yoe div 4 - yoe div 100);
          mp = (5 * doy + 2) div 153;
          m = (if mp < 10 then mp + 3 else mp - 9);
          y = yoe + era * 400
      in (if m \<le> 2 then y + 1 else y, m))"

text \<open>\<^verbatim>\<open>Format("2006/01")\<close> of a time with the given year and month.\<close>

definition format_2006_01 :: "int \<times> int \<Rightarrow> string" where
  "format_2006_01 ym = appendInt (fst ym) 4 @ ''/'' @ appendInt (snd ym) 2"

section \<open>Data model\<close>

text \<open>
  Of \<^verbatim>\<open>PhotoMetadata\<close> the program reads the title and the two timestamps; the other
  fields of the struct are filled by the decoder and never read.
\<close>

record TimeData =
  Timestamp :: string
  Formatted :: string

record PhotoMetadata =
  Title :: string
  CreationTime :: TimeData
  PhotoTakenTime :: TimeData

definition zeroTimeData :: TimeData where
  "zeroTimeData = \<lparr>Timestamp = [], Formatted = []\<rparr>"

definition zeroPhotoMetadata :: PhotoMetadata where
  "zeroPhotoMetadata = \<lparr>Title = [], CreationTime = zeroTimeData, PhotoTakenTime = zeroTimeData\<rparr>"

text \<open>
  What opening and reading a JSON file gives. \<open>Content md\<close> is a file that was read; \<open>md\<close>
  is the struct after \<^verbatim>\<open>json.Unmarshal\<close>, whose error the program ignores: for a body that
  is not JSON it is \<^const>\<open>zeroPhotoMetadata\<close>.
\<close>

datatype json_file = OpenFailed | ReadFailed | Content PhotoMetadata

text \<open>
  The embedded metadata of package \<^verbatim>\<open>github.com/tajtiattila/metadata\<close>, which is not part
  of the repository: of a time the program asks whether it is zero and formats its year
  and month.
\<close>

record MTime =
  IsZero :: bool
  Time :: "int \<times> int"

record Metadata =
  DateTimeCreated :: MTime
  DateTimeOriginal :: MTime

text \<open>
  What opening a media file gives: an error, a directory (with its name), or a file with
  the result of \<^verbatim>\<open>metadata.Parse\<close>, \<open>None\<close> when that returns an error.
\<close>

datatype media_file = MediaOpenFailed | Directory string | Media "Metadata option"

text \<open>
  One call of the function passed to \<^verbatim>\<open>filepath.Walk\<close>: with an error, or with the path,
  the name and the directory flag of an entry.
\<close>

datatype walk_call = WalkError string | WalkInfo string string bool

datatype error =
    InvalidTimestampFormat string
  | OpenError string
  | NewRequestError string
  | TransportError string
  | FailedToCreateDirectory string int
  | FailedToCreateNested string error
  | FailedToUpload string int
  | FailedAfterRetries string int

datatype msg =
    FailedToOpenJSON string
  | FailedToReadJSON string
  | ErrorOpeningFile
  | SkippingDirectory string
  | ErrorParsingFile string
  | CreationTimestampNotFound string
  | MediaFileAlreadyExists
  | FolderAlreadyExists string
  | SuccessfullyCreatedDirectory string
  | ErrorEnsuringNested error
  | Retrying int int string
  | FailedToUploadFile string error
  | Uploaded int

text \<open>
  What the program does to the outside, in order: the lines it prints, the requests
  \<^verbatim>\<open>client.Do\<close> sends (method and URL), the seconds it sleeps and the units it sends on
  the progress channel.
\<close>

datatype event = Printed msg | Request string string | Sleep nat | Progress int

text \<open>
  The outside of the program. The offset of the local time zone at an instant, the
  sequence of calls a walk of a directory makes, the JSON and media files, the working
  directory; and, depending on what has happened so far, whether a file opens, whether a
  request can be built and the status a request is answered with (\<open>None\<close>: the
  transport fails).
\<close>

record env =
  zoneOffset :: "int \<Rightarrow> int"
  walk :: "string \<Rightarrow> walk_call list"
  readJSON :: "string \<Rightarrow> json_file"
  openMedia :: "string \<Rightarrow> media_file"
  getwd :: "string option"
  osOpen :: "event list \<Rightarrow> string \<Rightarrow> bool"
  newRequest :: "string \<Rightarrow> string \<Rightarrow> bool"
  clientDo :: "event list \<Rightarrow> string \<Rightarrow> string \<Rightarrow> int option"

text \<open>
  The package-level variables the functions share, with the trace of events. The user
  name and the password only go into the authentication header and are left out.
\<close>

record globals =
  nextcloudURL :: string
  myMap :: "string \<rightharpoonup> string"
  failedCounter :: int
  successfullCounter :: int
  out :: "event list"

definition emit :: "event \<Rightarrow> globals \<Rightarrow> globals" where
  "emit ev g = g\<lparr>out := out g @ [ev]\<rparr>"

section \<open>Resolution\<close>

text \<open>
  \<^verbatim>\<open>extractDateFolder\<close> returns the folder and the error together; on an error the folder
  is the empty string.
\<close>

definition extractDateFolder :: "env \<Rightarrow> string \<Rightarrow> string \<times> error option" where
  "extractDateFolder e timestamp =
     (case time_Parse timestamp of
        Some parsedTime \<Rightarrow> (format_2006_01 parsedTime, None)
      | None \<Rightarrow>
          (case strconv_ParseInt timestamp of
             None \<Rightarrow> ([], Some (InvalidTimestampFormat timestamp))
           | Some epoch \<Rightarrow>
               (format_2006_01 (civilYearMonth (epoch + zoneOffset e epoch)), None)))"

text \<open>
  The function passed to \<^verbatim>\<open>filepath.Walk\<close> returns the error it is called with, which
  ends the walk; \<^verbatim>\<open>getMediaFileList\<close> drops the result of the walk and returns the two
  lists it has so far.
\<close>

fun walkFn :: "walk_call list \<Rightarrow> string list \<Rightarrow> string list \<Rightarrow> string list \<times> string list" where
  "walkFn [] localJsonFileList localMediaFileList = (localJsonFileList, localMediaFileList)"
| "walkFn (WalkError path # calls) localJsonFileList localMediaFileList =
     (localJsonFileList, localMediaFileList)"
| "walkFn (WalkInfo path name isDir # calls) localJsonFileList localMediaFileList =
     (if isDir then walkFn calls localJsonFileList localMediaFileList
      else if filepath_Ext name = ''.json'' then
        (if strings_Count name CHR ''.'' = 3
         then walkFn calls (localJsonFileList @ [path]) localMediaFileList
         else walkFn calls localJsonFileList localMediaFileList)
      else walkFn calls localJsonFileList (localMediaFileList @ [path]))"

definition getMediaFileList :: "env \<Rightarrow> string \<Rightarrow> string list \<times> string list" where
  "getMediaFileList e directory = walkFn (walk e directory) [] []"

fun parseExtractMetadatJsonFileAndAddToMapImage :: "env \<Rightarrow> string list \<Rightarrow> globals \<Rightarrow> globals" where
  "parseExtractMetadatJsonFileAndAddToMapImage e [] g = g"
| "parseExtractMetadatJsonFileAndAddToMapImage e (jsonFile # jsonFileList) g =
     (let parentPath = filepath_Dir jsonFile
      in case readJSON e jsonFile of
           OpenFailed \<Rightarrow> emit (Printed (FailedToOpenJSON jsonFile)) g
         | ReadFailed \<Rightarrow> emit (Printed (FailedToReadJSON jsonFile)) g
         | Content metadata \<Rightarrow>
             let fileName = Title metadata;
                 photoTakenTime = fst (extractDateFolder e (Timestamp (PhotoTakenTime metadata)));
                 absImageFilePath = filepath_Join parentPath fileName
             in parseExtractMetadatJsonFileAndAddToMapImage e jsonFileList
                  (g\<lparr>myMap := (myMap g)(absImageFilePath \<mapsto> photoTakenTime)\<rparr>))"

fun getMediaFilesWithoutMedtadataJsonFiles :: "string list \<Rightarrow> globals \<Rightarrow> string list" where
  "getMediaFilesWithoutMedtadataJsonFiles [] g = []"
| "getMediaFilesWithoutMedtadataJsonFiles (mediaFile # mediaFileList) g =
     (if myMap g mediaFile = None
      then mediaFile # getMediaFilesWithoutMedtadataJsonFiles mediaFileList g
      else getMediaFilesWithoutMedtadataJsonFiles mediaFileList g)"

definition defaultTimestamp :: string where
  "defaultTimestamp = ''0001/01''"

fun parseExtractMediaFilesWithoutMedtadataJsonFileAddToMap :: "env \<Rightarrow> string list \<Rightarrow> globals \<Rightarrow> globals" where
  "parseExtractMediaFilesWithoutMedtadataJsonFileAddToMap e [] g = g"
| "parseExtractMediaFilesWithoutMedtadataJsonFileAddToMap e (photoPath # exifMEdiaFileList) g =
     (if filepath_Ext photoPath = ''.DS_Store''
      then parseExtractMediaFilesWithoutMedtadataJsonFileAddToMap e exifMEdiaFileList g
      else case openMedia e photoPath of
           MediaOpenFailed \<Rightarrow> emit (Printed ErrorOpeningFile) g
         | Directory name \<Rightarrow>
             parseExtractMediaFilesWithoutMedtadataJsonFileAddToMap e exifMEdiaFileList
               (emit (Printed (SkippingDirectory name)) g)
         | Media parsed \<Rightarrow>
             let (timeStamp, g1) =
                   (case parsed of
                      None \<Rightarrow> (defaultTimestamp, emit (Printed (ErrorParsingFile photoPath)) g)
                    | Some meta \<Rightarrow>
                        if IsZero (DateTimeCreated meta)
                        then (format_2006_01 (Time (DateTimeOriginal meta)),
                              emit (Printed (CreationTimestampNotFound photoPath)) g)
                        else (format_2006_01 (Time (DateTimeCreated meta)), g))
             in if myMap g1 photoPath = None
                then parseExtractMediaFilesWithoutMedtadataJsonFileAddToMap e exifMEdiaFileList
                       (g1\<lparr>myMap := (myMap g1)(photoPath \<mapsto> timeStamp)\<rparr>)
                else parseExtractMediaFilesWithoutMedtadataJsonFileAddToMap e exifMEdiaFileList
                       (emit (Printed MediaFileAlreadyExists) g1))"

text \<open>
  The body of the last loop of \<^verbatim>\<open>processDirectory\<close> on one value of the map; \<open>None\<close> is
  the panic of \<^verbatim>\<open>parts[1]\<close> on a slice of fewer than two strings.
\<close>

definition normalizeTimestamp :: "string \<Rightarrow> string option" where
  "normalizeTimestamp subFolderTimestamp =
     (if strings_Contains subFolderTimestamp ''0001/''
      then (case strings_Split subFolderTimestamp CHR ''/'' of
              p0 # p1 # ps \<Rightarrow> Some (''2000/'' @ p1)
            | _ \<Rightarrow> None)
      else Some subFolderTimestamp)"

text \<open>
  The loop ranges over the map and assigns only to the key it is at, so it acts on each
  entry by itself, whatever the order.
\<close>

definition normalizeMap :: "(string \<rightharpoonup> string) \<Rightarrow> (string \<rightharpoonup> string)" where
  "normalizeMap m = (\<lambda>photoPath. Option.bind (m photoPath) normalizeTimestamp)"

definition resolve :: "env \<Rightarrow> string \<Rightarrow> globals \<Rightarrow> globals" where
  "resolve e photosDir g =
     (let (jsonFileList, mediaFileList) = getMediaFileList e photosDir;
          g1 = parseExtractMetadatJsonFileAndAddToMapImage e jsonFileList g;
          exifMEdiaFileList = getMediaFilesWithoutMedtadataJsonFiles mediaFileList g1
      in parseExtractMediaFilesWithoutMedtadataJsonFileAddToMap e exifMEdiaFileList g1)"

definition processDirectory :: "env \<Rightarrow> string \<Rightarrow> globals \<Rightarrow> globals" where
  "processDirectory e photosDir g =
     (let g2 = resolve e photosDir g
      in g2\<lparr>myMap := normalizeMap (myMap g2)\<rparr>)"

section \<open>Directory provisioning\<close>

text \<open>
  A \<open>Request\<close> event is recorded when \<^verbatim>\<open>client.Do\<close> is called, whether it returns a
  response or an error; nothing is recorded when the request cannot be built.
\<close>

definition createDirectoryIfNotExists :: "env \<Rightarrow> string \<Rightarrow> globals \<Rightarrow> error option \<times> globals" where
  "createDirectoryIfNotExists e url g =
     (if \<not> newRequest e ''MKCOL'' url then (Some (NewRequestError url), g)
      else case clientDo e (out g) ''MKCOL'' url of
             None \<Rightarrow> (Some (TransportError url), emit (Request ''MKCOL'' url) g)
           | Some statusCode \<Rightarrow>
               let g1 = emit (Request ''MKCOL'' url) g
               in if statusCode = 405 then (None, g1)
                  else if statusCode = 204
                  then (None, emit (Printed (FolderAlreadyExists url)) g1)
                  else if statusCode \<noteq> 201 \<and> statusCode \<noteq> 200
                  then (Some (FailedToCreateDirectory url statusCode), g1)
                  else (None, emit (Printed (SuccessfullyCreatedDirectory url)) g1))"

fun createParts :: "env \<Rightarrow> string \<Rightarrow> string list \<Rightarrow> globals \<Rightarrow> error option \<times> globals" where
  "createParts e currentPath [] g = (None, g)"
| "createParts e currentPath (part # parts) g =
     (if part = [] then createParts e currentPath parts g
      else let currentPath' = currentPath @ ''/'' @ part
           in case createDirectoryIfNotExists e currentPath' g of
                (Some err, g') \<Rightarrow> (Some (FailedToCreateNested currentPath' err), g')
              | (None, g') \<Rightarrow> createParts e currentPath' parts g')"

definition createNestedDirectories :: "env \<Rightarrow> string \<Rightarrow> string \<Rightarrow> globals \<Rightarrow> error option \<times> globals" where
  "createNestedDirectories e baseURL subFolder g =
     createParts e baseURL (strings_Split subFolder CHR ''/'') g"

section \<open>Upload\<close>

definition filepath_Abs :: "env \<Rightarrow> string \<Rightarrow> string" where
  "filepath_Abs e path =
     (if path \<noteq> [] \<and> isSep (hd path) then filepath_Clean path
      else case getwd e of
             None \<Rightarrow> []
           | Some wd \<Rightarrow> filepath_Join wd path)"

definition retryCount :: int where
  "retryCount = 3"

function uploadAttempts :: "env \<Rightarrow> string \<Rightarrow> string \<Rightarrow> string \<Rightarrow> int \<Rightarrow> globals \<Rightarrow> error option \<times> globals" where
  "uploadAttempts e absFileLocation url fileName attempt g =
     (if attempt \<le> retryCount then
        (if \<not> osOpen e (out g) absFileLocation then (Some (OpenError absFileLocation), g)
         else if \<not> newRequest e ''PUT'' url then (Some (NewRequestError url), g)
         else case clientDo e (out g) ''PUT'' url of
                None \<Rightarrow> (Some (TransportError url), emit (Request ''PUT'' url) g)
              | Some statusCode \<Rightarrow>
                  let g1 = emit (Request ''PUT'' url) g
                  in if statusCode = 201 \<or> statusCode = 200
                     then (None, g1\<lparr>successfullCounter := successfullCounter g1 + 1\<rparr>)
                     else if statusCode = 204
                     then (None, g1\<lparr>successfullCounter := successfullCounter g1 + 1\<rparr>)
                     else if statusCode = 404 \<or> statusCode = 504
                     then uploadAttempts e absFileLocation url fileName (attempt + 1)
                            (emit (Sleep 2) (emit (Printed (Retrying attempt statusCode url)) g1))
                     else (Some (FailedToUpload fileName statusCode),
                           g1\<lparr>failedCounter := failedCounter g1 + 1\<rparr>))
      else (Some (FailedAfterRetries fileName retryCount),
            g\<lparr>failedCounter := failedCounter g + 1\<rparr>))"
  by pat_completeness auto
termination
  by (relation "measure (\<lambda>(e, a, u, f, attempt, g). nat (retryCount + 1 - attempt))") auto

declare uploadAttempts.simps [simp del]

definition uploadFile :: "env \<Rightarrow> string \<Rightarrow> string \<Rightarrow> string \<Rightarrow> globals \<Rightarrow> error option \<times> globals" where
  "uploadFile e fileLocation nextcloudURL' subFolder g =
     (let fileName = filepath_Base fileLocation;
          url = nextcloudURL' @ ''/'' @ subFolder @ ''/'' @ fileName;
          absFileLocation = filepath_Abs e fileLocation
      in uploadAttempts e absFileLocation url fileName 1 g)"

record MediaFile =
  Path :: string
  Ts :: string

text \<open>One worker on the jobs it receives from the channel, in the order it receives them.\<close>

fun worker :: "env \<Rightarrow> MediaFile list \<Rightarrow> globals \<Rightarrow> globals" where
  "worker e [] g = g"
| "worker e (media # jobs) g =
     (let (err, g1) = uploadFile e (Path media) (nextcloudURL g) (Ts media) g;
          g2 = (case err of
                  Some er \<Rightarrow> emit (Printed (FailedToUploadFile (Path media) er)) g1
                | None \<Rightarrow> g1)
      in worker e jobs (emit (Progress 1) g2))"

section \<open>Scenarios\<close>


text \<open>The state at the start of \<^verbatim>\<open>main\<close>, with a server address.\<close>

definition g0 :: globals where
  "g0 = \<lparr>nextcloudURL = ''http://nc'', myMap = Map.empty, failedCounter = 0,
          successfullCounter = 0, out = []\<rparr>"


text \<open>The requests of a trace, and the number of progress units in it.\<close>

fun requests :: "event list \<Rightarrow> (string \<times> string) list" where
  "requests [] = []"
| "requests (Request m u # evs) = (m, u) # requests evs"
| "requests (ev # evs) = requests evs"

fun progressUnits :: "event list \<Rightarrow> int" where
  "progressUnits [] = 0"
| "progressUnits (Progress n # evs) = n + progressUnits evs"
| "progressUnits (ev # evs) = progressUnits evs"

text \<open>
  The values \<^verbatim>\<open>currentPath\<close> takes in \<^verbatim>\<open>createNestedDirectories\<close> when no call fails: one
  for each part that is not empty, each extending the one before.
\<close>

fun segmentURLs :: "string \<Rightarrow> string list \<Rightarrow> string list" where
  "segmentURLs currentPath [] = []"
| "segmentURLs currentPath (part # parts) =
     (if part = [] then segmentURLs currentPath parts
      else (currentPath @ ''/'' @ part) # segmentURLs (currentPath @ ''/'' @ part) parts)"

text \<open>
  An outside given by the calls of the walk, the JSON files and the media files (a file
  that is not listed fails to open), in UTC, where every request is answered by the
  given status.
\<close>

definition world :: "walk_call list \<Rightarrow> (string \<times> json_file) list \<Rightarrow> (string \<times> media_file) list \<Rightarrow> int \<Rightarrow> env" where
  "world calls jsons medias status =
     \<lparr>zoneOffset = (\<lambda>t. 0), walk = (\<lambda>d. calls),
      readJSON = (\<lambda>p. case map_of jsons p of None \<Rightarrow> OpenFailed | Some f \<Rightarrow> f),
      openMedia = (\<lambda>p. case map_of medias p of None \<Rightarrow> MediaOpenFailed | Some f \<Rightarrow> f),
      getwd = Some ''/'',
      osOpen = (\<lambda>h p. True), newRequest = (\<lambda>m u. True),
      clientDo = (\<lambda>h m u. Some status)\<rparr>"

text \<open>A sidecar with the given title and timestamps.\<close>

definition sidecar :: "string \<Rightarrow> string \<Rightarrow> string \<Rightarrow> json_file" where
  "sidecar title taken created =
     Content \<lparr>Title = title,
              CreationTime = \<lparr>Timestamp = created, Formatted = []\<rparr>,
              PhotoTakenTime = \<lparr>Timestamp = taken, Formatted = []\<rparr>\<rparr>"

text \<open>A media file whose embedded metadata has no creation time and the given original time.\<close>

definition taken :: "int \<Rightarrow> int \<Rightarrow> media_file" where
  "taken year month =
     Media (Some \<lparr>DateTimeCreated = \<lparr>IsZero = True, Time = (1, 1)\<rparr>,
                  DateTimeOriginal = \<lparr>IsZero = False, Time = (year, month)\<rparr>\<rparr>)"

section \<open>The two phases of \<^verbatim>\<open>uploadMediaFilesToNextcloud\<close>\<close>

text \<open>
  \<^verbatim>\<open>uploadMediaFilesToNextcloud\<close> runs goroutines: the caller, a pool of directory
  workers, a pool of upload workers, the goroutine that sends the upload jobs and the one
  that closes the progress channel. They are modelled as an interleaving: a state holds
  the position of every goroutine, the channels and the wait groups, and a step is one
  goroutine doing its next operation, chosen by a schedule; a goroutine that is blocked
  (on an empty channel that is not closed, a full channel, a wait group that is not
  zero) has no step. A call of \<^verbatim>\<open>createNestedDirectories\<close> or \<^verbatim>\<open>uploadFile\<close> is one
  step, so the unsynchronised increments of the two counters do not interfere.
\<close>

text \<open>
  A directory worker: at the receive of its \<^verbatim>\<open>range\<close> loop, holding a directory, past
  \<^verbatim>\<open>createNestedDirectories\<close> and before \<^verbatim>\<open>wgDir.Done\<close>, or returned.
\<close>

datatype dworker = DRecv | DWork string | DFinish | DExit

text \<open>
  An upload worker: at the receive of its loop, holding a job, at the send on the progress
  channel, or returned.
\<close>

datatype uworker = URecv | UWork MediaFile | USend | UExit

text \<open>
  The caller: in the loop that starts the directory workers, in the loop that sends the
  directories (with those still to send), at \<^verbatim>\<open>wgDir.Wait\<close>, at the creation of the
  channels of the second phase, in the loop that starts the upload workers, at the two
  \<^verbatim>\<open>go\<close> statements, in the loop over the progress channel, returned, or stopped by the
  panic of \<^verbatim>\<open>make\<close> on a negative size.
\<close>

datatype mainpc =
    SpawnDir nat
  | SendDir "string list"
  | WaitDir
  | MakeChans
  | SpawnMedia nat
  | StartSender
  | StartCloser
  | ReadProgress
  | Returned
  | Panicked

text \<open>The goroutine that sends the jobs: not started, sending (with the entries left), returned.\<close>

datatype sender = SNone | Sending "(string \<times> string) list" | SExit

text \<open>The goroutine that closes the progress channel: not started, at \<^verbatim>\<open>wgMedia.Wait\<close>, returned.\<close>

datatype closer = CNone | CWait | CExit

text \<open>
  The fields \<open>dirDone\<close> and \<open>scheduled\<close> are not in the program: they record the
  directories whose \<^verbatim>\<open>createNestedDirectories\<close> has returned (with its error logged, if
  any) and the upload jobs sent on the jobs channel so far.
\<close>

record conc =
  glob :: globals
  pc :: mainpc
  dirJobs :: "string list"
  dirClosed :: bool
  wgDir :: int
  dirWorkers :: "dworker list"
  dirDone :: "string list"
  jobsChan :: "MediaFile list"
  jobsClosed :: bool
  senderpc :: sender
  wgMedia :: int
  mediaWorkers :: "uworker list"
  progressChan :: "int list"
  progressClosed :: bool
  closerpc :: closer
  scheduled :: "MediaFile list"
  finishCounter :: int

text \<open>The state after \<^verbatim>\<open>wgDir.Add(dirSize)\<close>, before the first worker is started.\<close>

definition init :: "globals \<Rightarrow> string list \<Rightarrow> conc" where
  "init g directories =
     \<lparr>glob = g, pc = SpawnDir 0, dirJobs = [], dirClosed = False,
      wgDir = int (length directories), dirWorkers = [], dirDone = [],
      jobsChan = [], jobsClosed = False, senderpc = SNone, wgMedia = 0, mediaWorkers = [],
      progressChan = [], progressClosed = False, closerpc = CNone, scheduled = [],
      finishCounter = 0\<rparr>"

datatype action = Main | DirWorker nat | MediaWorker nat | Sender | Closer

text \<open>
  The next operation of the caller. \<open>entries\<close> are the entries of \<^verbatim>\<open>myMap\<close> in the order
  the \<^verbatim>\<open>range\<close> of the sending goroutine yields them. The channel \<^verbatim>\<open>dirJobs\<close> has room
  for every directory and \<^verbatim>\<open>jobs\<close> for every entry, so the sends on them do not block.
\<close>

definition mainStep :: "int \<Rightarrow> string list \<Rightarrow> (string \<times> string) list \<Rightarrow> conc \<Rightarrow> conc option" where
  "mainStep parallelUploads directories entries c =
     (case pc c of
        SpawnDir k \<Rightarrow>
          if int k < parallelUploads
          then Some (c\<lparr>dirWorkers := dirWorkers c @ [DRecv], pc := SpawnDir (Suc k)\<rparr>)
          else Some (c\<lparr>pc := SendDir directories\<rparr>)
      | SendDir (dir # dirs) \<Rightarrow> Some (c\<lparr>dirJobs := dirJobs c @ [dir], pc := SendDir dirs\<rparr>)
      | SendDir [] \<Rightarrow> Some (c\<lparr>dirClosed := True, pc := WaitDir\<rparr>)
      | WaitDir \<Rightarrow> if wgDir c = 0 then Some (c\<lparr>pc := MakeChans\<rparr>) else None
      | MakeChans \<Rightarrow> Some (c\<lparr>pc := (if parallelUploads < 0 then Panicked else SpawnMedia 0)\<rparr>)
      | SpawnMedia k \<Rightarrow>
          if int k < parallelUploads
          then Some (c\<lparr>wgMedia := wgMedia c + 1, mediaWorkers := mediaWorkers c @ [URecv],
                       pc := SpawnMedia (Suc k)\<rparr>)
          else Some (c\<lparr>pc := StartSender\<rparr>)
      | StartSender \<Rightarrow> Some (c\<lparr>senderpc := Sending entries, pc := StartCloser\<rparr>)
      | StartCloser \<Rightarrow> Some (c\<lparr>closerpc := CWait, pc := ReadProgress\<rparr>)
      | ReadProgress \<Rightarrow>
          (case progressChan c of
             p # ps \<Rightarrow>
               Some (c\<lparr>progressChan := ps, finishCounter := finishCounter c + p,
                       glob := emit (Printed (Uploaded (finishCounter c + p))) (glob c)\<rparr>)
           | [] \<Rightarrow> if progressClosed c then Some (c\<lparr>pc := Returned\<rparr>) else None)
      | Returned \<Rightarrow> None
      | Panicked \<Rightarrow> None)"

text \<open>The next operation of directory worker \<open>i\<close>.\<close>

definition dirWorkerStep :: "env \<Rightarrow> nat \<Rightarrow> conc \<Rightarrow> conc option" where
  "dirWorkerStep e i c =
     (if i < length (dirWorkers c) then
        (case dirWorkers c ! i of
           DRecv \<Rightarrow>
             (case dirJobs c of
                directory # rest \<Rightarrow>
                  Some (c\<lparr>dirJobs := rest, dirWorkers := (dirWorkers c)[i := DWork directory]\<rparr>)
              | [] \<Rightarrow>
                  if dirClosed c then Some (c\<lparr>dirWorkers := (dirWorkers c)[i := DExit]\<rparr>) else None)
         | DWork directory \<Rightarrow>
             let (err, g1) = createNestedDirectories e (nextcloudURL (glob c)) directory (glob c);
                 g2 = (case err of
                         Some er \<Rightarrow> emit (Printed (ErrorEnsuringNested er)) g1
                       | None \<Rightarrow> g1)
             in Some (c\<lparr>glob := g2, dirDone := dirDone c @ [directory],
                        dirWorkers := (dirWorkers c)[i := DFinish]\<rparr>)
         | DFinish \<Rightarrow> Some (c\<lparr>wgDir := wgDir c - 1, dirWorkers := (dirWorkers c)[i := DRecv]\<rparr>)
         | DExit \<Rightarrow> None)
      else None)"

text \<open>
  The next operation of upload worker \<open>i\<close>, the function \<^verbatim>\<open>worker\<close> one operation at a
  time; the progress channel has room for \<^verbatim>\<open>parallelUploads\<close> units.
\<close>

definition mediaWorkerStep :: "env \<Rightarrow> int \<Rightarrow> nat \<Rightarrow> conc \<Rightarrow> conc option" where
  "mediaWorkerStep e parallelUploads i c =
     (if i < length (mediaWorkers c) then
        (case mediaWorkers c ! i of
           URecv \<Rightarrow>
             (case jobsChan c of
                media # rest \<Rightarrow>
                  Some (c\<lparr>jobsChan := rest, mediaWorkers := (mediaWorkers c)[i := UWork media]\<rparr>)
              | [] \<Rightarrow>
                  if jobsClosed c
                  then Some (c\<lparr>wgMedia := wgMedia c - 1, mediaWorkers := (mediaWorkers c)[i := UExit]\<rparr>)
                  else None)
         | UWork media \<Rightarrow>
             let (err, g1) = uploadFile e (Path media) (nextcloudURL (glob c)) (Ts media) (glob c);
                 g2 = (case err of
                         Some er \<Rightarrow> emit (Printed (FailedToUploadFile (Path media) er)) g1
                       | None \<Rightarrow> g1)
             in Some (c\<lparr>glob := g2, mediaWorkers := (mediaWorkers c)[i := USend]\<rparr>)
         | USend \<Rightarrow>
             if int (length (progressChan c)) < parallelUploads
             then Some (c\<lparr>progressChan := progressChan c @ [1],
                          mediaWorkers := (mediaWorkers c)[i := URecv]\<rparr>)
             else None
         | UExit \<Rightarrow> None)
      else None)"

definition senderStep :: "conc \<Rightarrow> conc option" where
  "senderStep c =
     (case senderpc c of
        Sending ((photoPath, subFolderTimestamp) # rest) \<Rightarrow>
          Some (c\<lparr>jobsChan := jobsChan c @ [\<lparr>Path = photoPath, Ts = subFolderTimestamp\<rparr>],
                  scheduled := scheduled c @ [\<lparr>Path = photoPath, Ts = subFolderTimestamp\<rparr>],
                  senderpc := Sending rest\<rparr>)
      | Sending [] \<Rightarrow> Some (c\<lparr>jobsClosed := True, senderpc := SExit\<rparr>)
      | SNone \<Rightarrow> None
      | SExit \<Rightarrow> None)"

definition closerStep :: "conc \<Rightarrow> conc option" where
  "closerStep c =
     (case closerpc c of
        CWait \<Rightarrow> if wgMedia c = 0 then Some (c\<lparr>progressClosed := True, closerpc := CExit\<rparr>) else None
      | CNone \<Rightarrow> None
      | CExit \<Rightarrow> None)"

fun fire :: "env \<Rightarrow> int \<Rightarrow> string list \<Rightarrow> (string \<times> string) list \<Rightarrow> action \<Rightarrow> conc \<Rightarrow> conc option" where
  "fire e parallelUploads directories entries Main c = mainStep parallelUploads directories entries c"
| "fire e parallelUploads directories entries (DirWorker i) c = dirWorkerStep e i c"
| "fire e parallelUploads directories entries (MediaWorker i) c = mediaWorkerStep e parallelUploads i c"
| "fire e parallelUploads directories entries Sender c = senderStep c"
| "fire e parallelUploads directories entries Closer c = closerStep c"

text \<open>A schedule from a state: \<open>None\<close> when it asks a goroutine for a step it does not have.\<close>

fun run :: "env \<Rightarrow> int \<Rightarrow> string list \<Rightarrow> (string \<times> string) list \<Rightarrow> action list \<Rightarrow> conc \<Rightarrow> conc option" where
  "run e parallelUploads directories entries [] c = Some c"
| "run e parallelUploads directories entries (a # sched) c =
     (case fire e parallelUploads directories entries a c of
        None \<Rightarrow> None
      | Some c' \<Rightarrow> run e parallelUploads directories entries sched c')"

text \<open>The upload requests of a trace.\<close>

definition puts :: "event list \<Rightarrow> (string \<times> string) list" where
  "puts evs = filter (\<lambda>(m, u). m = ''PUT'') (requests evs)"

text \<open>
  The second phase has begun: the sending goroutine is started, a job has been sent, an
  upload worker exists, or an upload request has been sent since the state \<open>g\<close> of the
  call.
\<close>

definition uploadBegun :: "globals \<Rightarrow> conc \<Rightarrow> bool" where
  "uploadBegun g c \<longleftrightarrow>
     senderpc c \<noteq> SNone \<or> scheduled c \<noteq> [] \<or> jobsChan c \<noteq> [] \<or> mediaWorkers c \<noteq> []
     \<or> puts (out (glob c)) \<noteq> puts (out g)"

text \<open>
  Every directory submitted has had its \<^verbatim>\<open>createNestedDirectories\<close> return, none is
  left in the channel or with a worker, and the wait group is at zero.
\<close>

definition provisioningDone :: "string list \<Rightarrow> conc \<Rightarrow> bool" where
  "provisioningDone directories c \<longleftrightarrow>
     mset (dirDone c) = mset directories \<and> dirJobs c = [] \<and> wgDir c = 0
     \<and> list_all (\<lambda>w. w = DRecv \<or> w = DExit) (dirWorkers c)"

text \<open>
  Where the directories are, for the invariant of the first phase: still to be sent by
  the caller, held by workers, or with workers that have not yet called \<^verbatim>\<open>wgDir.Done\<close>.
\<close>

fun job :: "dworker \<Rightarrow> string list" where
  "job (DWork directory) = [directory]"
| "job w = []"

definition workingOn :: "dworker list \<Rightarrow> string list" where
  "workingOn ws = concat (map job ws)"

definition finishing :: "dworker list \<Rightarrow> nat" where
  "finishing ws = length (filter (\<lambda>w. w = DFinish) ws)"

definition remaining :: "string list \<Rightarrow> mainpc \<Rightarrow> string list" where
  "remaining directories p =
     (case p of SpawnDir k \<Rightarrow> directories | SendDir dirs \<Rightarrow> dirs | _ \<Rightarrow> [])"

definition beforeBarrier :: "mainpc \<Rightarrow> bool" where
  "beforeBarrier p = (case p of SpawnDir k \<Rightarrow> True | SendDir dirs \<Rightarrow> True | WaitDir \<Rightarrow> True | _ \<Rightarrow> False)"

definition phaseInv :: "globals \<Rightarrow> string list \<Rightarrow> conc \<Rightarrow> bool" where
  "phaseInv g directories c \<longleftrightarrow>
     mset directories =
       mset (remaining directories (pc c)) + mset (dirJobs c) + mset (workingOn (dirWorkers c))
         + mset (dirDone c)
     \<and> wgDir c =
         int (length (remaining directories (pc c)) + length (dirJobs c)
              + length (workingOn (dirWorkers c)) + finishing (dirWorkers c))
     \<and> (beforeBarrier (pc c) \<longrightarrow>
           senderpc c = SNone \<and> scheduled c = [] \<and> jobsChan c = [] \<and> mediaWorkers c = []
           \<and> puts (out (glob c)) = puts (out g))
     \<and> (\<not> beforeBarrier (pc c) \<longrightarrow> wgDir c = 0)"

text \<open>
  A schedule for one directory worker, one upload worker, one directory and one file: the
  caller starts the worker, sends the directory and closes the channel; the worker takes
  the directory, creates it and calls \<^verbatim>\<open>wgDir.Done\<close>; the caller passes \<^verbatim>\<open>wgDir.Wait\<close>,
  starts the upload worker and the sending goroutine; the job is sent, received and
  uploaded.
\<close>

definition oneFile :: "action list" where
  "oneFile =
     [Main, Main, Main, Main, DirWorker 0, DirWorker 0, DirWorker 0,
      Main, Main, Main, Main, Main, Sender, MediaWorker 0, MediaWorker 0]"

section \<open>Properties\<close>

subsection \<open>The upload of one file\<close>












subsection \<open>Sidecar resolution\<close>

text \<open>
  The bucket a sidecar writes is the folder of its \<^verbatim>\<open>photoTakenTime\<close> alone, with the error
  of \<^verbatim>\<open>extractDateFolder\<close> dropped: the entry is written in every case, and the
  \<^verbatim>\<open>creationTime\<close> is not read.
\<close>

lemma sidecar_writes_photoTakenTime:
  assumes "readJSON e jsonFile = Content metadata"
  shows "parseExtractMetadatJsonFileAndAddToMapImage e [jsonFile] g =
     g\<lparr>myMap := (myMap g)(filepath_Join (filepath_Dir jsonFile) (Title metadata) \<mapsto>
            fst (extractDateFolder e (Timestamp (PhotoTakenTime metadata))))\<rparr>"
  using assms by (simp add: Let_def)

text \<open>
  Claim C1, on a sidecar of \<^verbatim>\<open>/p/a.jpg\<close>. With no \<^verbatim>\<open>photoTakenTime\<close> and the
  \<^verbatim>\<open>creationTime\<close> 1600000000, whose folder is \<^verbatim>\<open>2020/09\<close>, the bucket written is the
  empty string; with two timestamps that do not parse the entry is written as well, with
  the empty bucket.
\<close>

theorem sidecar_creationTime_not_consulted:
  "myMap (parseExtractMetadatJsonFileAndAddToMapImage
            (world [] [(''/p/a.jpg.supplemental-metadata.json'', sidecar ''a.jpg'' [] ''1600000000'')] [] 201)
            [''/p/a.jpg.supplemental-metadata.json''] g0) ''/p/a.jpg'' = Some []
   \<and> extractDateFolder (world [] [] [] 201) ''1600000000'' = (''2020/09'', None)
   \<and> myMap (parseExtractMetadatJsonFileAndAddToMapImage
            (world [] [(''/p/a.jpg.supplemental-metadata.json'', sidecar ''a.jpg'' ''abc'' ''xyz'')] [] 201)
            [''/p/a.jpg.supplemental-metadata.json''] g0) ''/p/a.jpg'' = Some []"
  by code_simp

text \<open>
  Claim C3, on a directory with \<^verbatim>\<open>/p/a.jpg\<close> and its sidecar without a
  \<^verbatim>\<open>photoTakenTime\<close>: after both resolution phases, and after the normalization too, the
  key \<^verbatim>\<open>/p/a.jpg\<close> has the empty bucket.
\<close>

theorem resolved_bucket_empty:
  "myMap (resolve
            (world [WalkInfo ''/p'' ''p'' True,
                    WalkInfo ''/p/a.jpg'' ''a.jpg'' False,
                    WalkInfo ''/p/a.jpg.supplemental-metadata.json'' ''a.jpg.supplemental-metadata.json'' False]
                   [(''/p/a.jpg.supplemental-metadata.json'', sidecar ''a.jpg'' [] ''1600000000'')]
                   [(''/p/a.jpg'', taken 2019 7)] 201)
            ''/p'' g0) ''/p/a.jpg'' = Some []
   \<and> myMap (processDirectory
            (world [WalkInfo ''/p'' ''p'' True,
                    WalkInfo ''/p/a.jpg'' ''a.jpg'' False,
                    WalkInfo ''/p/a.jpg.supplemental-metadata.json'' ''a.jpg.supplemental-metadata.json'' False]
                   [(''/p/a.jpg.supplemental-metadata.json'', sidecar ''a.jpg'' [] ''1600000000'')]
                   [(''/p/a.jpg'', taken 2019 7)] 201)
            ''/p'' g0) ''/p/a.jpg'' = Some []"
  by code_simp

subsection \<open>Faults on one item\<close>

text \<open>
  A JSON file that cannot be opened or read ends the loop over the sidecars, and a media
  file that cannot be opened ends the loop over the media files: both functions return
  where the other faults go on with the next item.
\<close>

lemma sidecar_open_failure_returns:
  assumes "readJSON e jsonFile = OpenFailed \<or> readJSON e jsonFile = ReadFailed"
  shows "myMap (parseExtractMetadatJsonFileAndAddToMapImage e (jsonFile # jsonFileList) g) = myMap g"
  using assms by (auto simp: emit_def)

lemma media_open_failure_returns:
  assumes "filepath_Ext photoPath \<noteq> ''.DS_Store''" and "openMedia e photoPath = MediaOpenFailed"
  shows "myMap (parseExtractMediaFilesWithoutMedtadataJsonFileAddToMap e (photoPath # exifMEdiaFileList) g)
           = myMap g"
  using assms by (simp add: emit_def)

text \<open>
  Claim C7, on two sidecars of which the first cannot be opened, and on two media files of
  which the first cannot be opened: the second item, which alone gets its bucket, is not
  processed.
\<close>

theorem open_failure_aborts_batch:
  "myMap (parseExtractMetadatJsonFileAndAddToMapImage
            (world [] [(''/p/b.jpg.supplemental-metadata.json'', sidecar ''b.jpg'' ''1600000000'' [])] [] 201)
            [''/p/a.jpg.supplemental-metadata.json'', ''/p/b.jpg.supplemental-metadata.json''] g0)
      ''/p/b.jpg'' = None
   \<and> myMap (parseExtractMetadatJsonFileAndAddToMapImage
            (world [] [(''/p/b.jpg.supplemental-metadata.json'', sidecar ''b.jpg'' ''1600000000'' [])] [] 201)
            [''/p/b.jpg.supplemental-metadata.json''] g0)
      ''/p/b.jpg'' = Some ''2020/09''
   \<and> myMap (parseExtractMediaFilesWithoutMedtadataJsonFileAddToMap
            (world [] [] [(''/p/d.jpg'', taken 2019 7)] 201) [''/p/c.jpg'', ''/p/d.jpg''] g0)
      ''/p/d.jpg'' = None
   \<and> myMap (parseExtractMediaFilesWithoutMedtadataJsonFileAddToMap
            (world [] [] [(''/p/d.jpg'', taken 2019 7)] 201) [''/p/d.jpg''] g0)
      ''/p/d.jpg'' = Some ''2019/07''"
  by code_simp

subsection \<open>The scan\<close>

text \<open>
  The classification of the entries of a walk that reports no error: a file is in the
  first list when its extension is \<^verbatim>\<open>.json\<close> and its name has three dots, in the second
  list when its extension is not \<^verbatim>\<open>.json\<close>, and in neither otherwise; directories are
  in neither.
\<close>

lemma walkFn_classification:
  assumes "\<forall>c\<in>set calls. \<exists>path name isDir. c = WalkInfo path name isDir"
  shows "walkFn calls js ms =
     (js @ [path. WalkInfo path name isDir \<leftarrow> calls,
                  \<not> isDir \<and> filepath_Ext name = ''.json'' \<and> strings_Count name CHR ''.'' = 3],
      ms @ [path. WalkInfo path name isDir \<leftarrow> calls, \<not> isDir \<and> filepath_Ext name \<noteq> ''.json''])"
  using assms
proof (induction calls arbitrary: js ms)
  case Nil
  then show ?case by simp
next
  case (Cons c calls)
  then obtain path name isDir where c: "c = WalkInfo path name isDir"
    by auto
  from Cons.prems have rest: "\<forall>c\<in>set calls. \<exists>path name isDir. c = WalkInfo path name isDir"
    by simp
  show ?case
    unfolding c by (simp add: Cons.IH [OF rest])
qed

text \<open>
  Claim C8, on a walk that visits \<^verbatim>\<open>/p/a.jpg\<close> and then reports an error: the scan returns
  the one file it has seen, the run goes on, \<^verbatim>\<open>/p/a.jpg\<close> gets its bucket, and the worker
  that receives it sends the file to the server.
\<close>

theorem walk_error_not_fatal:
  "getMediaFileList
      (world [WalkInfo ''/p'' ''p'' True, WalkInfo ''/p/a.jpg'' ''a.jpg'' False,
              WalkError ''/p/sub'', WalkInfo ''/p/z.jpg'' ''z.jpg'' False]
             [] [(''/p/a.jpg'', taken 2019 7), (''/p/z.jpg'', taken 2019 8)] 201) ''/p''
     = ([], [''/p/a.jpg''])
   \<and> myMap (processDirectory
      (world [WalkInfo ''/p'' ''p'' True, WalkInfo ''/p/a.jpg'' ''a.jpg'' False,
              WalkError ''/p/sub'', WalkInfo ''/p/z.jpg'' ''z.jpg'' False]
             [] [(''/p/a.jpg'', taken 2019 7), (''/p/z.jpg'', taken 2019 8)] 201) ''/p'' g0) ''/p/a.jpg''
     = Some ''2019/07''
   \<and> requests (out (worker
      (world [WalkInfo ''/p'' ''p'' True, WalkInfo ''/p/a.jpg'' ''a.jpg'' False,
              WalkError ''/p/sub'', WalkInfo ''/p/z.jpg'' ''z.jpg'' False]
             [] [(''/p/a.jpg'', taken 2019 7), (''/p/z.jpg'', taken 2019 8)] 201)
      [\<lparr>Path = ''/p/a.jpg'', Ts = ''2019/07''\<rparr>]
      (processDirectory
        (world [WalkInfo ''/p'' ''p'' True, WalkInfo ''/p/a.jpg'' ''a.jpg'' False,
                WalkError ''/p/sub'', WalkInfo ''/p/z.jpg'' ''z.jpg'' False]
               [] [(''/p/a.jpg'', taken 2019 7), (''/p/z.jpg'', taken 2019 8)] 201) ''/p'' g0)))
     = [(''PUT'', ''http://nc/2019/07/a.jpg'')]"
  by code_simp

subsection \<open>Normalization\<close>

lemma strings_Contains_iff:
  "strings_Contains s sub \<longleftrightarrow> (\<exists>pre post. s = pre @ sub @ post)"
proof (induction s)
  case Nil
  then show ?case by auto
next
  case (Cons c cs)
  show ?case
  proof
    assume "strings_Contains (c # cs) sub"
    then consider "prefix sub (c # cs)" | "strings_Contains cs sub"
      by auto
    then show "\<exists>pre post. c # cs = pre @ sub @ post"
    proof cases
      case 1
      then obtain post where "c # cs = sub @ post"
        by (auto simp: prefix_def)
      then have "c # cs = [] @ sub @ post" by simp
      then show ?thesis by blast
    next
      case 2
      then obtain pre post where "cs = pre @ sub @ post"
        using Cons.IH by blast
      then have "c # cs = (c # pre) @ sub @ post" by simp
      then show ?thesis by blast
    qed
  next
    assume "\<exists>pre post. c # cs = pre @ sub @ post"
    then obtain pre post where eq: "c # cs = pre @ sub @ post"
      by blast
    show "strings_Contains (c # cs) sub"
    proof (cases pre)
      case Nil
      with eq have "prefix sub (c # cs)" by (simp add: prefix_def)
      then show ?thesis by simp
    next
      case (Cons p pre')
      with eq have "cs = pre' @ sub @ post" by simp
      then have "strings_Contains cs sub" using Cons.IH by blast
      then show ?thesis by simp
    qed
  qed
qed

lemma strings_Split_no_sep:
  "sep \<notin> set s \<Longrightarrow> strings_Split s sep = [s]"
  by (induction s) auto

lemma strings_Split_append:
  "sep \<notin> set y \<Longrightarrow> strings_Split (y @ sep # rest) sep = y # strings_Split rest sep"
  by (induction y) auto

lemma split_has_two:
  assumes "strings_Contains s (sub @ [sep])"
  shows "\<exists>p0 p1 ps. strings_Split s sep = p0 # p1 # ps"
proof -
  from assms obtain pre post where "s = pre @ (sub @ [sep]) @ post"
    unfolding strings_Contains_iff by blast
  then have s: "s = (pre @ sub) @ sep # post" by simp
  define y where "y = takeWhile (\<lambda>c. c \<noteq> sep) s"
  define r where "r = dropWhile (\<lambda>c. c \<noteq> sep) s"
  have "sep \<in> set s" unfolding s by simp
  then have "r \<noteq> []" unfolding r_def by (auto simp: dropWhile_eq_Nil_conv)
  moreover have "r \<noteq> [] \<Longrightarrow> hd r = sep"
    unfolding r_def using hd_dropWhile [of "\<lambda>c. c \<noteq> sep" s] by auto
  ultimately obtain rest where r: "r = sep # rest"
    by (cases r) auto
  have ynot: "sep \<notin> set y"
    unfolding y_def by (auto dest: set_takeWhileD)
  have "s = y @ r"
    unfolding y_def r_def by simp
  then have "s = y @ sep # rest"
    unfolding r .
  then have "strings_Split s sep = y # strings_Split rest sep"
    using strings_Split_append [OF ynot] by simp
  moreover obtain q qs where "strings_Split rest sep = q # qs"
    by (cases rest; cases "strings_Split rest sep") (auto split: if_splits list.splits)
  ultimately show ?thesis by simp
qed

text \<open>
  The index \<^verbatim>\<open>parts[1]\<close> is always in range: a value that contains \<^verbatim>\<open>0001/\<close> contains a
  slash, so the split has two parts at least. The loop keeps every key.
\<close>

lemma normalizeTimestamp_no_panic: "normalizeTimestamp s \<noteq> None"
proof (cases "strings_Contains s ''0001/''")
  case True
  then have "strings_Contains s (''0001'' @ [CHR ''/''])" by simp
  from split_has_two [OF this] show ?thesis
    using True by (auto simp: normalizeTimestamp_def)
next
  case False
  then show ?thesis by (simp add: normalizeTimestamp_def)
qed

lemma dom_normalizeMap: "dom (normalizeMap m) = dom m"
proof -
  have "(normalizeMap m k = None) = (m k = None)" for k
    using normalizeTimestamp_no_panic
    by (cases "m k") (simp_all add: normalizeMap_def)
  then show ?thesis by (auto simp: dom_def)
qed

lemma contains_sentinel_canonical:
  assumes len: "length y = 4" and y: "CHR ''/'' \<notin> set y" and mo: "CHR ''/'' \<notin> set mo"
  shows "strings_Contains (y @ ''/'' @ mo) ''0001/'' \<longleftrightarrow> y = ''0001''"
proof
  assume "strings_Contains (y @ ''/'' @ mo) ''0001/''"
  then obtain pre post where "y @ ''/'' @ mo = pre @ ''0001/'' @ post"
    unfolding strings_Contains_iff by blast
  then have eq: "y @ CHR ''/'' # mo = (pre @ ''0001'') @ CHR ''/'' # post"
    by simp
  have "y = pre @ ''0001'' \<and> mo = post"
    using append_Cons_eq_iff [OF y mo, of "pre @ ''0001''" post] eq by simp
  with len show "y = ''0001''" by simp
next
  assume "y = ''0001''"
  then have "y @ ''/'' @ mo = [] @ ''0001/'' @ mo" by simp
  then show "strings_Contains (y @ ''/'' @ mo) ''0001/''"
    unfolding strings_Contains_iff by blast
qed

lemma normalizeTimestamp_canonical:
  assumes len: "length y = 4" and y: "CHR ''/'' \<notin> set y" and mo: "CHR ''/'' \<notin> set mo"
  shows "normalizeTimestamp (y @ ''/'' @ mo) = Some ((if y = ''0001'' then ''2000'' else y) @ ''/'' @ mo)"
proof -
  have split: "strings_Split (y @ ''/'' @ mo) CHR ''/'' = [y, mo]"
    using strings_Split_append [OF y, of mo] strings_Split_no_sep [OF mo] by simp
  show ?thesis
    unfolding normalizeTimestamp_def contains_sentinel_canonical [OF len y mo] split
    by simp
qed

text \<open>
  On a bucket made of a year of four characters, a slash and a month, with no other
  slash, the normalization does what is meant: the year \<^verbatim>\<open>0001\<close> becomes \<^verbatim>\<open>2000\<close> with the
  month unchanged, and a bucket with any other year of four characters is unchanged.
\<close>

lemma normalization_of_canonical_buckets:
  assumes "myMap (resolve e photosDir g) photoPath = Some (y @ ''/'' @ mo)"
    and "length y = 4" and "CHR ''/'' \<notin> set y" and "CHR ''/'' \<notin> set mo"
  shows "myMap (processDirectory e photosDir g) photoPath =
           Some ((if y = ''0001'' then ''2000'' else y) @ ''/'' @ mo)"
  using assms normalizeTimestamp_canonical [of y mo]
  by (simp add: processDirectory_def normalizeMap_def Let_def)

text \<open>
  A media file without readable metadata, whose bucket \<^verbatim>\<open>0001/01\<close> becomes \<^verbatim>\<open>2000/01\<close>, and
  one taken in July 2019, whose bucket stays.
\<close>

lemma normalization_of_canonical_buckets_examples:
  "myMap (resolve (world [WalkInfo ''/p/b.jpg'' ''b.jpg'' False] [] [(''/p/b.jpg'', Media None)] 201) ''/p'' g0)
      ''/p/b.jpg'' = Some ''0001/01''
   \<and> myMap (processDirectory (world [WalkInfo ''/p/b.jpg'' ''b.jpg'' False] [] [(''/p/b.jpg'', Media None)] 201) ''/p'' g0)
      ''/p/b.jpg'' = Some ''2000/01''
   \<and> myMap (resolve (world [WalkInfo ''/p/c.jpg'' ''c.jpg'' False] [] [(''/p/c.jpg'', taken 2019 7)] 201) ''/p'' g0)
      ''/p/c.jpg'' = Some ''2019/07''
   \<and> myMap (processDirectory (world [WalkInfo ''/p/c.jpg'' ''c.jpg'' False] [] [(''/p/c.jpg'', taken 2019 7)] 201) ''/p'' g0)
      ''/p/c.jpg'' = Some ''2019/07''"
proof -
  let ?W1 = "world [WalkInfo ''/p/b.jpg'' ''b.jpg'' False] [] [(''/p/b.jpg'', Media None)] 201"
  let ?W2 = "world [WalkInfo ''/p/c.jpg'' ''c.jpg'' False] [] [(''/p/c.jpg'', taken 2019 7)] 201"
  have r1: "myMap (resolve ?W1 ''/p'' g0) ''/p/b.jpg'' = Some (''0001'' @ ''/'' @ ''01'')"
    by code_simp
  have r2: "myMap (resolve ?W2 ''/p'' g0) ''/p/c.jpg'' = Some (''2019'' @ ''/'' @ ''07'')"
    by code_simp
  have p1: "myMap (processDirectory ?W1 ''/p'' g0) ''/p/b.jpg'' = Some ''2000/01''"
    using normalization_of_canonical_buckets [OF r1] by simp
  have p2: "myMap (processDirectory ?W2 ''/p'' g0) ''/p/c.jpg'' = Some ''2019/07''"
    using normalization_of_canonical_buckets [OF r2] by simp
  from r1 r2 p1 p2 show ?thesis by simp
qed

text \<open>
  Claim C4, on a sidecar with the timestamp 253449475200, the 30th of June of the year
  10001. The test of the loop is \<^verbatim>\<open>strings.Contains\<close> on the whole bucket, not a
  comparison of its year: the bucket \<^verbatim>\<open>10001/06\<close>, whose year is not \<^verbatim>\<open>0001\<close>, is
  rewritten to \<^verbatim>\<open>2000/06\<close>.
\<close>

theorem normalization_rewrites_five_digit_year:
  "myMap (resolve
            (world [WalkInfo ''/p/a.jpg.supplemental-metadata.json'' ''a.jpg.supplemental-metadata.json'' False]
                   [(''/p/a.jpg.supplemental-metadata.json'', sidecar ''a.jpg'' ''253449475200'' [])] [] 201)
            ''/p'' g0) ''/p/a.jpg'' = Some ''10001/06''
   \<and> myMap (processDirectory
            (world [WalkInfo ''/p/a.jpg.supplemental-metadata.json'' ''a.jpg.supplemental-metadata.json'' False]
                   [(''/p/a.jpg.supplemental-metadata.json'', sidecar ''a.jpg'' ''253449475200'' [])] [] 201)
            ''/p'' g0) ''/p/a.jpg'' = Some ''2000/06''"
  by code_simp

subsection \<open>Directory provisioning\<close>

lemma requests_append: "requests (xs @ ys) = requests xs @ requests ys"
  by (induction xs rule: requests.induct) auto

lemma createDirectoryIfNotExists_requests:
  assumes "createDirectoryIfNotExists e url g = (r, g')"
  shows "(r = None \<longrightarrow> requests (out g') = requests (out g) @ [(''MKCOL'', url)])
       \<and> (requests (out g') = requests (out g) \<or> requests (out g') = requests (out g) @ [(''MKCOL'', url)])"
  using assms
  by (auto simp: createDirectoryIfNotExists_def emit_def requests_append Let_def
           split: if_splits option.splits)

lemma createParts_requests:
  assumes "createParts e currentPath parts g = (r, g')"
  shows "\<exists>n\<le>length (segmentURLs currentPath parts).
           requests (out g') = requests (out g) @ map (Pair ''MKCOL'') (take n (segmentURLs currentPath parts))
         \<and> (r = None \<longrightarrow> n = length (segmentURLs currentPath parts))
         \<and> (\<forall>err. r = Some err \<longrightarrow>
               (\<exists>k cause. k < length (segmentURLs currentPath parts) \<and> k \<le> n \<and> n \<le> Suc k
                  \<and> err = FailedToCreateNested (segmentURLs currentPath parts ! k) cause))"
  using assms
proof (induction parts arbitrary: currentPath g)
  case Nil
  then show ?case by simp
next
  case (Cons part parts)
  show ?case
  proof (cases "part = []")
    case True
    with Cons.prems have "createParts e currentPath parts g = (r, g')" by simp
    from Cons.IH [OF this] show ?thesis using True by simp
  next
    case False
    define cp where "cp = currentPath @ ''/'' @ part"
    obtain r1 g1 where c: "createDirectoryIfNotExists e cp g = (r1, g1)"
      by (cases "createDirectoryIfNotExists e cp g")
    note rq = createDirectoryIfNotExists_requests [OF c]
    have urls: "segmentURLs currentPath (part # parts) = cp # segmentURLs cp parts"
      using False by (simp add: cp_def)
    show ?thesis
    proof (cases r1)
      case None
      with Cons.prems False c have rest: "createParts e cp parts g1 = (r, g')"
        by (simp add: cp_def)
      from Cons.IH [OF rest] obtain n where n:
        "n \<le> length (segmentURLs cp parts)"
        "requests (out g') = requests (out g1) @ map (Pair ''MKCOL'') (take n (segmentURLs cp parts))"
        "r = None \<longrightarrow> n = length (segmentURLs cp parts)"
        "\<forall>err. r = Some err \<longrightarrow>
               (\<exists>k cause. k < length (segmentURLs cp parts) \<and> k \<le> n \<and> n \<le> Suc k
                  \<and> err = FailedToCreateNested (segmentURLs cp parts ! k) cause)"
        by blast
      from rq None have g1: "requests (out g1) = requests (out g) @ [(''MKCOL'', cp)]"
        by simp
      have "Suc n \<le> length (segmentURLs currentPath (part # parts))"
        using n(1) urls by simp
      moreover have "requests (out g') = requests (out g) @
          map (Pair ''MKCOL'') (take (Suc n) (segmentURLs currentPath (part # parts)))"
        using n(2) g1 urls by simp
      moreover have "r = None \<longrightarrow> Suc n = length (segmentURLs currentPath (part # parts))"
        using n(3) urls by simp
      moreover have "\<forall>err. r = Some err \<longrightarrow>
               (\<exists>k cause. k < length (segmentURLs currentPath (part # parts)) \<and> k \<le> Suc n \<and> Suc n \<le> Suc k
                  \<and> err = FailedToCreateNested (segmentURLs currentPath (part # parts) ! k) cause)"
      proof (intro allI impI)
        fix err assume "r = Some err"
        with n(4) obtain k cause where k: "k < length (segmentURLs cp parts)" "k \<le> n" "n \<le> Suc k"
            "err = FailedToCreateNested (segmentURLs cp parts ! k) cause"
          by blast
        then have "Suc k < length (segmentURLs currentPath (part # parts)) \<and> Suc k \<le> Suc n \<and> Suc n \<le> Suc (Suc k)
                  \<and> err = FailedToCreateNested (segmentURLs currentPath (part # parts) ! Suc k) cause"
          using urls by simp
        then show "\<exists>k cause. k < length (segmentURLs currentPath (part # parts)) \<and> k \<le> Suc n \<and> Suc n \<le> Suc k
                  \<and> err = FailedToCreateNested (segmentURLs currentPath (part # parts) ! k) cause"
          by blast
      qed
      ultimately show ?thesis by blast
    next
      case (Some err1)
      with Cons.prems False c have res: "r = Some (FailedToCreateNested cp err1)" "g' = g1"
        by (simp_all add: cp_def)
      from rq have "requests (out g1) = requests (out g) @ map (Pair ''MKCOL'') (take 0 (segmentURLs currentPath (part # parts)))
          \<or> requests (out g1) = requests (out g) @ map (Pair ''MKCOL'') (take (Suc 0) (segmentURLs currentPath (part # parts)))"
        using urls by simp
      then obtain n where n: "n \<le> Suc 0"
          "requests (out g1) = requests (out g) @ map (Pair ''MKCOL'') (take n (segmentURLs currentPath (part # parts)))"
        by (metis le0 le_refl)
      have "n \<le> length (segmentURLs currentPath (part # parts))"
        using n(1) urls by simp
      moreover have "0 < length (segmentURLs currentPath (part # parts)) \<and> 0 \<le> n \<and> n \<le> Suc 0
           \<and> FailedToCreateNested cp err1 = FailedToCreateNested (segmentURLs currentPath (part # parts) ! 0) err1"
        using n(1) urls by simp
      ultimately show ?thesis
        using n(2) res by blast
    qed
  qed
qed

lemma createParts_run:
  "\<exists>n gs. n \<le> length (segmentURLs currentPath parts) \<and> length gs = Suc n \<and> gs ! 0 = g
     \<and> (\<forall>i<n. createDirectoryIfNotExists e (segmentURLs currentPath parts ! i) (gs ! i) = (None, gs ! Suc i))
     \<and> (n = length (segmentURLs currentPath parts) \<longrightarrow>
           createParts e currentPath parts g = (None, gs ! n))
     \<and> (n < length (segmentURLs currentPath parts) \<longrightarrow>
           (\<exists>cause g'. createDirectoryIfNotExists e (segmentURLs currentPath parts ! n) (gs ! n) = (Some cause, g')
              \<and> createParts e currentPath parts g =
                    (Some (FailedToCreateNested (segmentURLs currentPath parts ! n) cause), g')))"
proof (induction parts arbitrary: currentPath g)
  case Nil
  have "(0::nat) \<le> length (segmentURLs currentPath []) \<and> length [g] = Suc 0 \<and> [g] ! 0 = g
     \<and> (\<forall>i<0. createDirectoryIfNotExists e (segmentURLs currentPath [] ! i) ([g] ! i) = (None, [g] ! Suc i))
     \<and> (0 = length (segmentURLs currentPath []) \<longrightarrow> createParts e currentPath [] g = (None, [g] ! 0))
     \<and> (0 < length (segmentURLs currentPath []) \<longrightarrow>
           (\<exists>cause g'. createDirectoryIfNotExists e (segmentURLs currentPath [] ! 0) ([g] ! 0) = (Some cause, g')
              \<and> createParts e currentPath [] g =
                    (Some (FailedToCreateNested (segmentURLs currentPath [] ! 0) cause), g')))"
    by simp
  then show ?case by blast
next
  case (Cons part parts)
  show ?case
  proof (cases "part = []")
    case True
    then show ?thesis using Cons.IH [of currentPath g] by simp
  next
    case False
    define cp where "cp = currentPath @ ''/'' @ part"
    define U where "U = segmentURLs cp parts"
    have urls: "segmentURLs currentPath (part # parts) = cp # U"
      using False by (simp add: cp_def U_def)
    obtain r1 g1 where c: "createDirectoryIfNotExists e cp g = (r1, g1)"
      by (cases "createDirectoryIfNotExists e cp g")
    show ?thesis
    proof (cases r1)
      case (Some err1)
      have res: "createParts e currentPath (part # parts) g = (Some (FailedToCreateNested cp err1), g1)"
        using False c Some by (simp add: cp_def)
      have "(0::nat) \<le> length (cp # U) \<and> length [g] = Suc 0 \<and> [g] ! 0 = g
         \<and> (\<forall>i<0. createDirectoryIfNotExists e ((cp # U) ! i) ([g] ! i) = (None, [g] ! Suc i))
         \<and> (0 = length (cp # U) \<longrightarrow> createParts e currentPath (part # parts) g = (None, [g] ! 0))
         \<and> (0 < length (cp # U) \<longrightarrow>
               (\<exists>cause g'. createDirectoryIfNotExists e ((cp # U) ! 0) ([g] ! 0) = (Some cause, g')
                  \<and> createParts e currentPath (part # parts) g =
                        (Some (FailedToCreateNested ((cp # U) ! 0) cause), g')))"
        using c Some res by simp
      then show ?thesis unfolding urls by blast
    next
      case None
      have res: "createParts e currentPath (part # parts) g = createParts e cp parts g1"
        using False c None by (simp add: cp_def)
      from Cons.IH [of cp g1] obtain n gs where n: "n \<le> length U" "length gs = Suc n" "gs ! 0 = g1"
          and calls: "\<forall>i<n. createDirectoryIfNotExists e (U ! i) (gs ! i) = (None, gs ! Suc i)"
          and all: "n = length U \<longrightarrow> createParts e cp parts g1 = (None, gs ! n)"
          and stop: "n < length U \<longrightarrow>
             (\<exists>cause g'. createDirectoryIfNotExists e (U ! n) (gs ! n) = (Some cause, g')
                \<and> createParts e cp parts g1 = (Some (FailedToCreateNested (U ! n) cause), g'))"
        unfolding U_def by blast
      have calls': "\<forall>i<Suc n. createDirectoryIfNotExists e ((cp # U) ! i) ((g # gs) ! i) = (None, (g # gs) ! Suc i)"
      proof (intro allI impI)
        fix i assume "i < Suc n"
        show "createDirectoryIfNotExists e ((cp # U) ! i) ((g # gs) ! i) = (None, (g # gs) ! Suc i)"
        proof (cases i)
          case 0
          then show ?thesis using c None n(3) by simp
        next
          case (Suc j)
          with \<open>i < Suc n\<close> have "j < n" by simp
          with calls show ?thesis using Suc by simp
        qed
      qed
      have "Suc n \<le> length (cp # U) \<and> length (g # gs) = Suc (Suc n) \<and> (g # gs) ! 0 = g
         \<and> (\<forall>i<Suc n. createDirectoryIfNotExists e ((cp # U) ! i) ((g # gs) ! i) = (None, (g # gs) ! Suc i))
         \<and> (Suc n = length (cp # U) \<longrightarrow>
               createParts e currentPath (part # parts) g = (None, (g # gs) ! Suc n))
         \<and> (Suc n < length (cp # U) \<longrightarrow>
               (\<exists>cause g'. createDirectoryIfNotExists e ((cp # U) ! Suc n) ((g # gs) ! Suc n) = (Some cause, g')
                  \<and> createParts e currentPath (part # parts) g =
                        (Some (FailedToCreateNested ((cp # U) ! Suc n) cause), g')))"
        using n calls' all stop res by simp
      then show ?thesis unfolding urls by blast
    qed
  qed
qed

lemma createDirectoryIfNotExists_success_iff:
  "fst (createDirectoryIfNotExists e url g) = None \<longleftrightarrow>
     newRequest e ''MKCOL'' url \<and> (\<exists>s\<in>{200, 201, 204, 405}. clientDo e (out g) ''MKCOL'' url = Some s)"
  by (auto simp: createDirectoryIfNotExists_def Let_def split: option.splits)

lemma createDirectoryIfNotExists_one_request:
  "requests (out (snd (createDirectoryIfNotExists e url g))) =
     requests (out g) @ (if newRequest e ''MKCOL'' url then [(''MKCOL'', url)] else [])"
  by (auto simp: createDirectoryIfNotExists_def Let_def emit_def requests_append split: option.splits)

text \<open>
  Claim C5, as amended. \<^verbatim>\<open>createNestedDirectories\<close> calls \<^verbatim>\<open>createDirectoryIfNotExists\<close> on
  the paths of the non-empty segments of the bucket, parent before child, each on the
  state the call before it left: the first \<open>n\<close> calls succeed; when these are all the
  segments the call succeeds; otherwise the call on segment \<open>n\<close> fails, and the call
  returns that error for that segment with the state of the failed call, so that nothing
  is requested for the segments after it. The requests sent are create-collection
  requests for the first segments, one for each. One call of
  \<^verbatim>\<open>createDirectoryIfNotExists\<close> sends one request when the request can be built, and
  succeeds exactly when it can be built and is answered by 200, 201, 204 or 405.
\<close>

theorem createNestedDirectories_contract:
  "(createNestedDirectories e baseURL subFolder g = (r, g') \<longrightarrow>
      (\<exists>n\<le>length (segmentURLs baseURL (strings_Split subFolder CHR ''/'')).
           requests (out g') = requests (out g) @
             map (Pair ''MKCOL'') (take n (segmentURLs baseURL (strings_Split subFolder CHR ''/'')))
         \<and> (r = None \<longrightarrow> n = length (segmentURLs baseURL (strings_Split subFolder CHR ''/'')))
         \<and> (\<forall>err. r = Some err \<longrightarrow>
               (\<exists>k cause. k < length (segmentURLs baseURL (strings_Split subFolder CHR ''/'')) \<and> k \<le> n \<and> n \<le> Suc k
                  \<and> err = FailedToCreateNested (segmentURLs baseURL (strings_Split subFolder CHR ''/'') ! k) cause))))
   \<and> (\<exists>n gs. n \<le> length (segmentURLs baseURL (strings_Split subFolder CHR ''/''))
         \<and> length gs = Suc n \<and> gs ! 0 = g
         \<and> (\<forall>i<n. createDirectoryIfNotExists e
                      (segmentURLs baseURL (strings_Split subFolder CHR ''/'') ! i) (gs ! i) = (None, gs ! Suc i))
         \<and> (n = length (segmentURLs baseURL (strings_Split subFolder CHR ''/'')) \<longrightarrow>
               createNestedDirectories e baseURL subFolder g = (None, gs ! n))
         \<and> (n < length (segmentURLs baseURL (strings_Split subFolder CHR ''/'')) \<longrightarrow>
               (\<exists>cause g''. createDirectoryIfNotExists e
                      (segmentURLs baseURL (strings_Split subFolder CHR ''/'') ! n) (gs ! n) = (Some cause, g'')
                  \<and> createNestedDirectories e baseURL subFolder g =
                        (Some (FailedToCreateNested
                                 (segmentURLs baseURL (strings_Split subFolder CHR ''/'') ! n) cause), g''))))
   \<and> (fst (createDirectoryIfNotExists e url g1) = None \<longleftrightarrow>
         newRequest e ''MKCOL'' url
         \<and> (\<exists>s\<in>{200, 201, 204, 405}. clientDo e (out g1) ''MKCOL'' url = Some s))
   \<and> requests (out (snd (createDirectoryIfNotExists e url g1))) =
         requests (out g1) @ (if newRequest e ''MKCOL'' url then [(''MKCOL'', url)] else [])"
  using createParts_requests [of e baseURL "strings_Split subFolder CHR ''/''" g r g']
    createParts_run [of baseURL "strings_Split subFolder CHR ''/''" g e]
    createDirectoryIfNotExists_success_iff [of e url g1]
    createDirectoryIfNotExists_one_request [of e url g1]
  unfolding createNestedDirectories_def by blast

text \<open>
  The theorem on the bucket \<^verbatim>\<open>2024/01\<close>. Against a server that answers 201 no call can
  fail, so both segments are created, the year first, and the call succeeds; against a
  server that answers 500 the first call fails, so the call fails on \<^verbatim>\<open>2024\<close> after that
  one request. Single calls answered 405 succeed and answered 404 fail.
\<close>

theorem createNestedDirectories_contract_witness:
  "fst (createNestedDirectories (world [] [] [] 201) ''http://nc'' ''2024/01'' g0) = None
   \<and> requests (out (snd (createNestedDirectories (world [] [] [] 201) ''http://nc'' ''2024/01'' g0))) =
       [(''MKCOL'', ''http://nc/2024''), (''MKCOL'', ''http://nc/2024/01'')]
   \<and> fst (createNestedDirectories (world [] [] [] 500) ''http://nc'' ''2024/01'' g0) =
       Some (FailedToCreateNested ''http://nc/2024'' (FailedToCreateDirectory ''http://nc/2024'' 500))
   \<and> requests (out (snd (createNestedDirectories (world [] [] [] 500) ''http://nc'' ''2024/01'' g0))) =
       [(''MKCOL'', ''http://nc/2024'')]
   \<and> fst (createDirectoryIfNotExists (world [] [] [] 405) ''http://nc/2024'' g0) = None
   \<and> fst (createDirectoryIfNotExists (world [] [] [] 404) ''http://nc/2024'' g0) \<noteq> None"
proof -
  let ?U = "segmentURLs ''http://nc'' (strings_Split ''2024/01'' CHR ''/'')"
  have urls: "?U = [''http://nc/2024'', ''http://nc/2024/01'']"
    by code_simp
  have start: "requests (out g0) = []"
    by (simp add: g0_def)
  have builds: "\<And>s m u. newRequest (world [] [] [] s) m u"
    by (simp add: world_def)
  have answers: "\<And>s h m u. clientDo (world [] [] [] s) h m u = Some s"
    by (simp add: world_def)
  have single: "\<And>s u g. fst (createDirectoryIfNotExists (world [] [] [] s) u g) = None \<longleftrightarrow> s \<in> {200, 201, 204, 405}"
  proof -
    fix s :: int and u g
    from createNestedDirectories_contract [where e = "world [] [] [] s" and url = u and ?g1.0 = g]
    have "fst (createDirectoryIfNotExists (world [] [] [] s) u g) = None \<longleftrightarrow>
         newRequest (world [] [] [] s) ''MKCOL'' u
         \<and> (\<exists>t\<in>{200, 201, 204, 405}. clientDo (world [] [] [] s) (out g) ''MKCOL'' u = Some t)"
      by blast
    then show "fst (createDirectoryIfNotExists (world [] [] [] s) u g) = None \<longleftrightarrow> s \<in> {200, 201, 204, 405}"
      unfolding answers using builds by auto
  qed
  let ?ok = "createNestedDirectories (world [] [] [] 201) ''http://nc'' ''2024/01'' g0"
  from createNestedDirectories_contract [where e = "world [] [] [] 201" and baseURL = "''http://nc''"
      and subFolder = "''2024/01''" and g = g0]
  obtain n gs where n: "n \<le> length ?U"
      and all: "n = length ?U \<longrightarrow> ?ok = (None, gs ! n)"
      and stop: "n < length ?U \<longrightarrow>
         (\<exists>cause g''. createDirectoryIfNotExists (world [] [] [] 201) (?U ! n) (gs ! n) = (Some cause, g''))"
    by blast
  have "\<not> n < length ?U"
  proof
    assume "n < length ?U"
    with stop obtain cause g'' where
        "createDirectoryIfNotExists (world [] [] [] 201) (?U ! n) (gs ! n) = (Some cause, g'')"
      by blast
    then have "fst (createDirectoryIfNotExists (world [] [] [] 201) (?U ! n) (gs ! n)) \<noteq> None"
      by simp
    then show False unfolding single by simp
  qed
  with n all have ok: "fst ?ok = None"
    by simp
  have "?ok = (fst ?ok, snd ?ok)" by simp
  with createNestedDirectories_contract [where e = "world [] [] [] 201" and baseURL = "''http://nc''"
      and subFolder = "''2024/01''" and g = g0 and r = "fst ?ok" and g' = "snd ?ok"]
  obtain k where "requests (out (snd ?ok)) = requests (out g0) @ map (Pair ''MKCOL'') (take k ?U)"
      and "fst ?ok = None \<longrightarrow> k = length ?U"
    by blast
  with ok have okreqs: "requests (out (snd ?ok)) =
       [(''MKCOL'', ''http://nc/2024''), (''MKCOL'', ''http://nc/2024/01'')]"
    by (simp add: urls start)
  let ?bad = "createNestedDirectories (world [] [] [] 500) ''http://nc'' ''2024/01'' g0"
  from createNestedDirectories_contract [where e = "world [] [] [] 500" and baseURL = "''http://nc''"
      and subFolder = "''2024/01''" and g = g0]
  obtain m hs where m: "m \<le> length ?U" and h0: "hs ! 0 = g0"
      and calls: "\<forall>i<m. createDirectoryIfNotExists (world [] [] [] 500) (?U ! i) (hs ! i) = (None, hs ! Suc i)"
      and stop500: "m < length ?U \<longrightarrow>
         (\<exists>cause g''. createDirectoryIfNotExists (world [] [] [] 500) (?U ! m) (hs ! m) = (Some cause, g'')
            \<and> ?bad = (Some (FailedToCreateNested (?U ! m) cause), g''))"
    by blast
  have m0: "m = 0"
  proof (rule ccontr)
    assume "m \<noteq> 0"
    then have "0 < m" by simp
    with calls have "createDirectoryIfNotExists (world [] [] [] 500) (?U ! 0) (hs ! 0) = (None, hs ! Suc 0)"
      by blast
    then have "fst (createDirectoryIfNotExists (world [] [] [] 500) (?U ! 0) (hs ! 0)) = None"
      by simp
    then show False unfolding single by simp
  qed
  with stop500 h0 urls obtain cause g'' where
      first: "createDirectoryIfNotExists (world [] [] [] 500) ''http://nc/2024'' g0 = (Some cause, g'')"
      and bad: "?bad = (Some (FailedToCreateNested ''http://nc/2024'' cause), g'')"
    by auto
  have "fst (createDirectoryIfNotExists (world [] [] [] 500) ''http://nc/2024'' g0) =
      Some (FailedToCreateDirectory ''http://nc/2024'' 500)"
    by (simp add: createDirectoryIfNotExists_def world_def Let_def)
  with first have cause: "cause = FailedToCreateDirectory ''http://nc/2024'' 500"
    by simp
  from createNestedDirectories_contract [where e = "world [] [] [] 500" and url = "''http://nc/2024''" and ?g1.0 = g0]
  have "requests (out (snd (createDirectoryIfNotExists (world [] [] [] 500) ''http://nc/2024'' g0))) =
      requests (out g0) @ (if newRequest (world [] [] [] 500) ''MKCOL'' ''http://nc/2024''
                           then [(''MKCOL'', ''http://nc/2024'')] else [])"
    by blast
  with first have "requests (out g'') = [(''MKCOL'', ''http://nc/2024'')]"
    using builds by (simp add: start)
  with bad cause have badres: "fst ?bad =
       Some (FailedToCreateNested ''http://nc/2024'' (FailedToCreateDirectory ''http://nc/2024'' 500))"
      and badreqs: "requests (out (snd ?bad)) = [(''MKCOL'', ''http://nc/2024'')]"
    by simp_all
  have s405: "fst (createDirectoryIfNotExists (world [] [] [] 405) ''http://nc/2024'' g0) = None"
    unfolding single by simp
  have s404: "fst (createDirectoryIfNotExists (world [] [] [] 404) ''http://nc/2024'' g0) \<noteq> None"
    unfolding single by simp
  from ok okreqs badres badreqs s405 s404 show ?thesis by blast
qed

text \<open>
  Claim C5 as stated fails when the creation of a parent fails: against a server that
  answers 500 the bucket \<^verbatim>\<open>2024/01\<close>, of two segments, gets the one request for
  \<^verbatim>\<open>2024\<close> and none for \<^verbatim>\<open>2024/01\<close>.
\<close>

theorem parent_failure_skips_child:
  "strings_Split ''2024/01'' CHR ''/'' = [''2024'', ''01'']
   \<and> fst (createNestedDirectories (world [] [] [] 500) ''http://nc'' ''2024/01'' g0) =
       Some (FailedToCreateNested ''http://nc/2024'' (FailedToCreateDirectory ''http://nc/2024'' 500))
   \<and> out (snd (createNestedDirectories (world [] [] [] 500) ''http://nc'' ''2024/01'' g0)) =
       [Request ''MKCOL'' ''http://nc/2024'']"
  by code_simp

subsection \<open>The two resolvers on one path\<close>

lemma emit_fields [simp]:
  "myMap (emit ev g) = myMap g" "nextcloudURL (emit ev g) = nextcloudURL g"
  "failedCounter (emit ev g) = failedCounter g" "successfullCounter (emit ev g) = successfullCounter g"
  "out (emit ev g) = out g @ [ev]"
  by (simp_all add: emit_def)










subsection \<open>Uploads that fail before a status\<close>

lemma progressUnits_append: "progressUnits (xs @ ys) = progressUnits xs + progressUnits ys"
  by (induction xs rule: progressUnits.induct) auto

text \<open>What an upload leaves alone, and what it does to the counters.\<close>

lemma uploadAttempts_effect:
  assumes "uploadAttempts e a url f attempt g = (r, g')"
  shows "nextcloudURL g' = nextcloudURL g \<and> myMap g' = myMap g
       \<and> progressUnits (out g') = progressUnits (out g)
       \<and> (successfullCounter g' = successfullCounter g + 1 \<and> failedCounter g' = failedCounter g
          \<or> successfullCounter g' = successfullCounter g \<and> failedCounter g' = failedCounter g + 1
          \<or> successfullCounter g' = successfullCounter g \<and> failedCounter g' = failedCounter g
             \<and> (r = Some (OpenError a) \<or> r = Some (NewRequestError url) \<or> r = Some (TransportError url)))"
  using assms
proof (induction e a url f attempt g rule: uploadAttempts.induct)
  case (1 e a url f attempt g)
  show ?case
  proof (cases "attempt \<le> retryCount \<and> osOpen e (out g) a \<and> newRequest e ''PUT'' url")
    case False
    then show ?thesis
      using "1.prems" by (subst (asm) uploadAttempts.simps) (auto split: if_splits)
  next
    case True
    show ?thesis
    proof (cases "clientDo e (out g) ''PUT'' url")
      case None
      then show ?thesis
        using True "1.prems"
        by (subst (asm) uploadAttempts.simps) (auto simp: progressUnits_append)
    next
      case (Some s)
      show ?thesis
      proof (cases "s = 404 \<or> s = 504")
        case False
        then show ?thesis
          using True Some "1.prems"
          by (subst (asm) uploadAttempts.simps) (auto simp: progressUnits_append Let_def split: if_splits)
      next
        case retry: True
        define g1 where "g1 = emit (Sleep 2) (emit (Printed (Retrying attempt s url)) (emit (Request ''PUT'' url) g))"
        have next_call: "uploadAttempts e a url f (attempt + 1) g1 = (r, g')"
          using True Some retry "1.prems"
          by (subst (asm) uploadAttempts.simps) (auto simp: Let_def g1_def)
        have ih: "nextcloudURL g' = nextcloudURL g1 \<and> myMap g' = myMap g1
           \<and> progressUnits (out g') = progressUnits (out g1)
           \<and> (successfullCounter g' = successfullCounter g1 + 1 \<and> failedCounter g' = failedCounter g1
              \<or> successfullCounter g' = successfullCounter g1 \<and> failedCounter g' = failedCounter g1 + 1
              \<or> successfullCounter g' = successfullCounter g1 \<and> failedCounter g' = failedCounter g1
                 \<and> (r = Some (OpenError a) \<or> r = Some (NewRequestError url) \<or> r = Some (TransportError url)))"
          using "1.IH" [of s "emit (Request ''PUT'' url) g"] True Some retry next_call
          by (auto simp: g1_def)
        have g1: "nextcloudURL g1 = nextcloudURL g" "myMap g1 = myMap g"
          "progressUnits (out g1) = progressUnits (out g)"
          "successfullCounter g1 = successfullCounter g" "failedCounter g1 = failedCounter g"
          by (simp_all add: g1_def progressUnits_append)
        show ?thesis using ih unfolding g1 .
      qed
    qed
  qed
qed

lemma uploadAttempts_prestatus:
  assumes "\<not> osOpen e (out g) a \<or> \<not> newRequest e ''PUT'' url \<or> clientDo e (out g) ''PUT'' url = None"
  shows "fst (uploadAttempts e a url f 1 g) \<noteq> None
       \<and> successfullCounter (snd (uploadAttempts e a url f 1 g)) = successfullCounter g
       \<and> failedCounter (snd (uploadAttempts e a url f 1 g)) = failedCounter g"
  using assms
  by (subst (1 2 3) uploadAttempts.simps) (auto simp: retryCount_def)


lemma uploadFile_effect:
  assumes "uploadFile e loc base sub g = (r, g')"
  shows "nextcloudURL g' = nextcloudURL g \<and> myMap g' = myMap g
       \<and> progressUnits (out g') = progressUnits (out g)
       \<and> successfullCounter g \<le> successfullCounter g' \<and> failedCounter g \<le> failedCounter g'
       \<and> successfullCounter g' + failedCounter g' \<le> successfullCounter g + failedCounter g + 1"
  using uploadAttempts_effect [OF assms [unfolded uploadFile_def Let_def]]
  by auto

lemma worker_effect:
  "nextcloudURL (worker e jobs g) = nextcloudURL g
   \<and> progressUnits (out (worker e jobs g)) = progressUnits (out g) + int (length jobs)
   \<and> successfullCounter (worker e jobs g) + failedCounter (worker e jobs g)
        \<le> successfullCounter g + failedCounter g + int (length jobs)"
proof (induction jobs arbitrary: g)
  case Nil
  then show ?case by simp
next
  case (Cons media jobs)
  obtain r g1 where up: "uploadFile e (Path media) (nextcloudURL g) (Ts media) g = (r, g1)"
    by (cases "uploadFile e (Path media) (nextcloudURL g) (Ts media) g")
  define g2 where "g2 = emit (Progress 1)
      (case r of Some er \<Rightarrow> emit (Printed (FailedToUploadFile (Path media) er)) g1 | None \<Rightarrow> g1)"
  have step: "worker e (media # jobs) g = worker e jobs g2"
    using up by (simp add: g2_def)
  note eff = uploadFile_effect [OF up]
  have g2: "nextcloudURL g2 = nextcloudURL g"
    "progressUnits (out g2) = progressUnits (out g) + 1"
    "successfullCounter g2 + failedCounter g2 \<le> successfullCounter g + failedCounter g + 1"
    using eff by (auto simp: g2_def progressUnits_append split: option.splits)
  show ?case
    unfolding step using Cons.IH [of g2] g2 by auto
qed

lemma worker_uncounted:
  assumes "m \<in> set jobs"
    and "\<forall>h. \<not> osOpen e h (filepath_Abs e (Path m))
           \<or> \<not> newRequest e ''PUT'' (nextcloudURL g @ ''/'' @ Ts m @ ''/'' @ filepath_Base (Path m))
           \<or> clientDo e h ''PUT'' (nextcloudURL g @ ''/'' @ Ts m @ ''/'' @ filepath_Base (Path m)) = None"
  shows "successfullCounter (worker e jobs g) + failedCounter (worker e jobs g)
           < successfullCounter g + failedCounter g + int (length jobs)"
  using assms
proof (induction jobs arbitrary: g)
  case Nil
  then show ?case by simp
next
  case (Cons media jobs)
  obtain r g1 where up: "uploadFile e (Path media) (nextcloudURL g) (Ts media) g = (r, g1)"
    by (cases "uploadFile e (Path media) (nextcloudURL g) (Ts media) g")
  define g2 where "g2 = emit (Progress 1)
      (case r of Some er \<Rightarrow> emit (Printed (FailedToUploadFile (Path media) er)) g1 | None \<Rightarrow> g1)"
  have step: "worker e (media # jobs) g = worker e jobs g2"
    using up by (simp add: g2_def)
  note eff = uploadFile_effect [OF up]
  have url: "nextcloudURL g2 = nextcloudURL g"
    using eff by (auto simp: g2_def split: option.splits)
  have sum2: "successfullCounter g2 + failedCounter g2 = successfullCounter g1 + failedCounter g1"
    by (auto simp: g2_def split: option.splits)
  show ?case
  proof (cases "media = m")
    case True
    have pre: "\<not> osOpen e (out g) (filepath_Abs e (Path m))
           \<or> \<not> newRequest e ''PUT'' (nextcloudURL g @ ''/'' @ Ts m @ ''/'' @ filepath_Base (Path m))
           \<or> clientDo e (out g) ''PUT'' (nextcloudURL g @ ''/'' @ Ts m @ ''/'' @ filepath_Base (Path m)) = None"
      using spec [OF Cons.prems(2), of "out g"] .
    have "successfullCounter g1 = successfullCounter g \<and> failedCounter g1 = failedCounter g"
      using uploadAttempts_prestatus [OF pre, of "filepath_Base (Path m)"] up True
      by (simp add: uploadFile_def Let_def)
    then have "successfullCounter g2 + failedCounter g2 = successfullCounter g + failedCounter g"
      using sum2 by simp
    then show ?thesis
      unfolding step using worker_effect [of e jobs g2] by simp
  next
    case False
    with Cons.prems have "m \<in> set jobs" by simp
    from Cons.IH [OF this, of g2] Cons.prems(2) url
    have "successfullCounter (worker e jobs g2) + failedCounter (worker e jobs g2)
           < successfullCounter g2 + failedCounter g2 + int (length jobs)"
      by simp
    then show ?thesis
      unfolding step using eff sum2 by simp
  qed
qed

lemma entries_length:
  assumes "distinct (map Path jobs)" and "m = map_of (map (\<lambda>j. (Path j, Ts j)) jobs)"
  shows "card (dom m) = length jobs"
proof -
  have "dom m = set (map Path jobs)"
    unfolding assms(2) by (simp add: dom_map_of_conv_image_fst image_image)
  then show ?thesis
    using distinct_card [OF assms(1)] by simp
qed

text \<open>
  Claim C10. An upload whose first attempt cannot open the file, cannot build the request
  or gets no response returns an error and leaves both counters as they are; the worker
  sends one progress unit for every job; so when the jobs are the entries of the map and
  one of them fails in this way, the two counters together grow by less than the number
  of entries.
\<close>

theorem prestatus_failure_uncounted:
  "(\<not> osOpen e (out g) (filepath_Abs e loc)
      \<or> \<not> newRequest e ''PUT'' (base @ ''/'' @ sub @ ''/'' @ filepath_Base loc)
      \<or> clientDo e (out g) ''PUT'' (base @ ''/'' @ sub @ ''/'' @ filepath_Base loc) = None \<longrightarrow>
        fst (uploadFile e loc base sub g) \<noteq> None
      \<and> successfullCounter (snd (uploadFile e loc base sub g)) = successfullCounter g
      \<and> failedCounter (snd (uploadFile e loc base sub g)) = failedCounter g)
   \<and> progressUnits (out (worker e jobs g)) = progressUnits (out g) + int (length jobs)
   \<and> (distinct (map Path jobs) \<and> myMap g = map_of (map (\<lambda>j. (Path j, Ts j)) jobs) \<and> m \<in> set jobs
      \<and> (\<forall>h. \<not> osOpen e h (filepath_Abs e (Path m))
             \<or> \<not> newRequest e ''PUT'' (nextcloudURL g @ ''/'' @ Ts m @ ''/'' @ filepath_Base (Path m))
             \<or> clientDo e h ''PUT'' (nextcloudURL g @ ''/'' @ Ts m @ ''/'' @ filepath_Base (Path m)) = None) \<longrightarrow>
        successfullCounter (worker e jobs g) + failedCounter (worker e jobs g)
          < successfullCounter g + failedCounter g + int (card (dom (myMap g))))"
proof -
  have one: "\<not> osOpen e (out g) (filepath_Abs e loc)
      \<or> \<not> newRequest e ''PUT'' (base @ ''/'' @ sub @ ''/'' @ filepath_Base loc)
      \<or> clientDo e (out g) ''PUT'' (base @ ''/'' @ sub @ ''/'' @ filepath_Base loc) = None \<Longrightarrow>
        fst (uploadFile e loc base sub g) \<noteq> None
      \<and> successfullCounter (snd (uploadFile e loc base sub g)) = successfullCounter g
      \<and> failedCounter (snd (uploadFile e loc base sub g)) = failedCounter g"
    unfolding uploadFile_def Let_def by (rule uploadAttempts_prestatus)
  have two: "progressUnits (out (worker e jobs g)) = progressUnits (out g) + int (length jobs)"
    using worker_effect [of e jobs g] by simp
  have three: "distinct (map Path jobs) \<and> myMap g = map_of (map (\<lambda>j. (Path j, Ts j)) jobs) \<and> m \<in> set jobs
      \<and> (\<forall>h. \<not> osOpen e h (filepath_Abs e (Path m))
             \<or> \<not> newRequest e ''PUT'' (nextcloudURL g @ ''/'' @ Ts m @ ''/'' @ filepath_Base (Path m))
             \<or> clientDo e h ''PUT'' (nextcloudURL g @ ''/'' @ Ts m @ ''/'' @ filepath_Base (Path m)) = None) \<Longrightarrow>
        successfullCounter (worker e jobs g) + failedCounter (worker e jobs g)
          < successfullCounter g + failedCounter g + int (card (dom (myMap g)))"
    using worker_uncounted [of m jobs e g] entries_length [of jobs "myMap g"] by simp
  from one two three show ?thesis by blast
qed

text \<open>
  The theorem on a map of one entry whose file cannot be opened: one progress unit, both
  counters at zero.
\<close>

theorem prestatus_failure_uncounted_witness:
  "fst (uploadFile ((world [] [] [] 201)\<lparr>osOpen := \<lambda>h p. False\<rparr>) ''/p/a.jpg'' ''http://nc'' ''2020/09''
          (g0\<lparr>myMap := [''/p/a.jpg'' \<mapsto> ''2020/09'']\<rparr>)) \<noteq> None
   \<and> progressUnits (out (worker ((world [] [] [] 201)\<lparr>osOpen := \<lambda>h p. False\<rparr>)
          [\<lparr>Path = ''/p/a.jpg'', Ts = ''2020/09''\<rparr>] (g0\<lparr>myMap := [''/p/a.jpg'' \<mapsto> ''2020/09'']\<rparr>))) = 1
   \<and> successfullCounter (worker ((world [] [] [] 201)\<lparr>osOpen := \<lambda>h p. False\<rparr>)
          [\<lparr>Path = ''/p/a.jpg'', Ts = ''2020/09''\<rparr>] (g0\<lparr>myMap := [''/p/a.jpg'' \<mapsto> ''2020/09'']\<rparr>))
     + failedCounter (worker ((world [] [] [] 201)\<lparr>osOpen := \<lambda>h p. False\<rparr>)
          [\<lparr>Path = ''/p/a.jpg'', Ts = ''2020/09''\<rparr>] (g0\<lparr>myMap := [''/p/a.jpg'' \<mapsto> ''2020/09'']\<rparr>))
     < 1
   \<and> card (dom (myMap (g0\<lparr>myMap := [''/p/a.jpg'' \<mapsto> ''2020/09'']\<rparr>))) = 1"
proof -
  let ?E = "(world [] [] [] 201)\<lparr>osOpen := \<lambda>h p. False\<rparr>"
  let ?G = "g0\<lparr>myMap := [''/p/a.jpg'' \<mapsto> ''2020/09'']\<rparr>"
  let ?m = "\<lparr>Path = ''/p/a.jpg'', Ts = ''2020/09''\<rparr>"
  have closed: "\<forall>h. \<not> osOpen ?E h (filepath_Abs ?E (Path ?m))"
    by simp
  have entries: "distinct (map Path [?m]) \<and> myMap ?G = map_of (map (\<lambda>j. (Path j, Ts j)) [?m])"
    by simp
  have start: "progressUnits (out ?G) = 0 \<and> successfullCounter ?G = 0 \<and> failedCounter ?G = 0"
    by (simp add: g0_def)
  have size: "card (dom (myMap ?G)) = 1"
    by simp
  note inst = prestatus_failure_uncounted [of ?E ?G "''/p/a.jpg''" "''http://nc''" "''2020/09''" "[?m]" ?m]
  have a: "fst (uploadFile ?E ''/p/a.jpg'' ''http://nc'' ''2020/09'' ?G) \<noteq> None"
    using inst closed by simp
  have b: "progressUnits (out (worker ?E [?m] ?G)) = 1"
    using inst start by simp
  have c: "successfullCounter (worker ?E [?m] ?G) + failedCounter (worker ?E [?m] ?G) < 1"
    using inst closed entries start size by simp
  from a b c size show ?thesis by blast
qed

subsection \<open>The barrier between provisioning and upload\<close>

lemma workingOn_append [simp]: "workingOn (ws @ vs) = workingOn ws @ workingOn vs"
  by (simp add: workingOn_def)

lemma finishing_append [simp]: "finishing (ws @ vs) = finishing ws + finishing vs"
  by (simp add: finishing_def)

lemma workingOn_simps [simp]:
  "workingOn [] = []" "workingOn (w # ws) = job w @ workingOn ws"
  by (simp_all add: workingOn_def)

lemma finishing_simps [simp]:
  "finishing [] = 0" "finishing (w # ws) = (if w = DFinish then 1 else 0) + finishing ws"
  by (simp_all add: finishing_def)

lemma workingOn_update:
  "i < length ws \<Longrightarrow>
   mset (workingOn (ws[i := w])) + mset (job (ws ! i)) = mset (workingOn ws) + mset (job w)"
proof (induction ws arbitrary: i)
  case Nil
  then show ?case by simp
next
  case (Cons v ws)
  show ?case
  proof (cases i)
    case 0
    then show ?thesis by simp
  next
    case (Suc j)
    with Cons.prems have "j < length ws" by simp
    from Cons.IH [OF this] show ?thesis using Suc by (simp add: ac_simps)
  qed
qed

lemma finishing_update:
  "i < length ws \<Longrightarrow>
   finishing (ws[i := w]) + (if ws ! i = DFinish then 1 else 0) =
   finishing ws + (if w = DFinish then 1 else 0)"
proof (induction ws arbitrary: i)
  case Nil
  then show ?case by simp
next
  case (Cons v ws)
  show ?case
  proof (cases i)
    case 0
    then show ?thesis by simp
  next
    case (Suc j)
    with Cons.prems have "j < length ws" by simp
    from Cons.IH [OF this] show ?thesis using Suc by simp
  qed
qed

lemma length_workingOn_update:
  assumes "i < length ws"
  shows "length (workingOn (ws[i := w])) + length (job (ws ! i)) = length (workingOn ws) + length (job w)"
proof -
  have "size (mset (workingOn (ws[i := w])) + mset (job (ws ! i))) = size (mset (workingOn ws) + mset (job w))"
    using workingOn_update [OF assms] by simp
  then show ?thesis by simp
qed

lemma idle_workers:
  "workingOn ws = [] \<Longrightarrow> finishing ws = 0 \<Longrightarrow> list_all (\<lambda>w. w = DRecv \<or> w = DExit) ws"
proof (induction ws)
  case Nil
  then show ?case by simp
next
  case (Cons w ws)
  then show ?case by (cases w) (auto split: if_splits)
qed

lemma puts_append: "puts (xs @ ys) = puts xs @ puts ys"
  by (simp add: puts_def requests_append)

lemma createNestedDirectories_puts:
  assumes "createNestedDirectories e baseURL subFolder g = (r, g')"
  shows "puts (out g') = puts (out g)"
proof -
  from createParts_requests [OF assms [unfolded createNestedDirectories_def]]
  obtain n where "requests (out g') = requests (out g) @
      map (Pair ''MKCOL'') (take n (segmentURLs baseURL (strings_Split subFolder CHR ''/'')))"
    by blast
  then show ?thesis by (simp add: puts_def)
qed

text \<open>
  The invariant: every directory is still with the caller, in the channel, with a worker
  or done; the wait group counts those not yet signalled; before the caller has passed
  \<^verbatim>\<open>wgDir.Wait\<close> nothing of the second phase exists, and after it the wait group is zero.
\<close>

lemma phaseInv_init: "phaseInv g directories (init g directories)"
  by (simp add: phaseInv_def init_def remaining_def beforeBarrier_def)

lemma phaseInv_main:
  assumes inv: "phaseInv g directories c"
    and step: "mainStep parallelUploads directories entries c = Some c'"
  shows "phaseInv g directories c'"
proof (cases "pc c")
  case (SpawnDir k)
  then show ?thesis
    using inv step
    by (auto simp: mainStep_def phaseInv_def remaining_def beforeBarrier_def split: if_splits)
next
  case (SendDir dirs)
  then show ?thesis
    using inv step
    by (cases dirs) (auto simp: mainStep_def phaseInv_def remaining_def beforeBarrier_def)
next
  case WaitDir
  then show ?thesis
    using inv step
    by (auto simp: mainStep_def phaseInv_def remaining_def beforeBarrier_def split: if_splits)
next
  case MakeChans
  then show ?thesis
    using inv step
    by (auto simp: mainStep_def phaseInv_def remaining_def beforeBarrier_def split: if_splits)
next
  case (SpawnMedia k)
  then show ?thesis
    using inv step
    by (auto simp: mainStep_def phaseInv_def remaining_def beforeBarrier_def split: if_splits)
next
  case StartSender
  then show ?thesis
    using inv step
    by (auto simp: mainStep_def phaseInv_def remaining_def beforeBarrier_def)
next
  case StartCloser
  then show ?thesis
    using inv step
    by (auto simp: mainStep_def phaseInv_def remaining_def beforeBarrier_def)
next
  case ReadProgress
  then show ?thesis
    using inv step
    by (cases "progressChan c")
       (auto simp: mainStep_def phaseInv_def remaining_def beforeBarrier_def split: if_splits)
next
  case Returned
  then show ?thesis using step by (simp add: mainStep_def)
next
  case Panicked
  then show ?thesis using step by (simp add: mainStep_def)
qed


lemma phaseInv_dirWorker:
  assumes inv: "phaseInv g directories c"
    and step: "dirWorkerStep e i c = Some c'"
  shows "phaseInv g directories c'"
proof -
  from step have i: "i < length (dirWorkers c)"
    by (auto simp: dirWorkerStep_def split: if_splits)
  note wo = workingOn_update [OF i]
  note lwo = length_workingOn_update [OF i]
  note fi = finishing_update [OF i]
  show ?thesis
  proof (cases "dirWorkers c ! i")
    case DRecv
    show ?thesis
    proof (cases "dirJobs c")
      case Nil
      with step DRecv i have c': "c' = c\<lparr>dirWorkers := (dirWorkers c)[i := DExit]\<rparr>"
        by (auto simp: dirWorkerStep_def split: if_splits)
      show ?thesis
        using inv wo [of DExit] lwo [of DExit] fi [of DExit] DRecv
        unfolding c' phaseInv_def by auto
    next
      case (Cons directory rest)
      with step DRecv i have c': "c' = c\<lparr>dirJobs := rest, dirWorkers := (dirWorkers c)[i := DWork directory]\<rparr>"
        by (auto simp: dirWorkerStep_def)
      show ?thesis
        using inv wo [of "DWork directory"] lwo [of "DWork directory"] fi [of "DWork directory"] DRecv Cons
        unfolding c' phaseInv_def by auto
    qed
  next
    case (DWork directory)
    obtain err g1 where cn: "createNestedDirectories e (nextcloudURL (glob c)) directory (glob c) = (err, g1)"
      by (cases "createNestedDirectories e (nextcloudURL (glob c)) directory (glob c)")
    define g2 where "g2 = (case err of Some er \<Rightarrow> emit (Printed (ErrorEnsuringNested er)) g1 | None \<Rightarrow> g1)"
    have c': "c' = c\<lparr>glob := g2, dirDone := dirDone c @ [directory],
                     dirWorkers := (dirWorkers c)[i := DFinish]\<rparr>"
      using step DWork i cn by (auto simp: dirWorkerStep_def g2_def)
    have "puts (out g2) = puts (out g1)"
      by (cases err) (simp_all add: g2_def emit_def puts_append, simp add: puts_def)
    then have p: "puts (out g2) = puts (out (glob c))"
      using createNestedDirectories_puts [OF cn] by simp
    have m: "mset (workingOn (dirWorkers c)) = add_mset directory (mset (workingOn ((dirWorkers c)[i := DFinish])))"
      using wo [of DFinish] DWork by simp
    have l: "length (workingOn (dirWorkers c)) = Suc (length (workingOn ((dirWorkers c)[i := DFinish])))"
      using lwo [of DFinish] DWork by simp
    have f: "finishing ((dirWorkers c)[i := DFinish]) = Suc (finishing (dirWorkers c))"
      using fi [of DFinish] DWork by simp
    show ?thesis
      using inv unfolding c' phaseInv_def by (auto simp: p m l f)
  next
    case DFinish
    with step i have c': "c' = c\<lparr>wgDir := wgDir c - 1, dirWorkers := (dirWorkers c)[i := DRecv]\<rparr>"
      by (auto simp: dirWorkerStep_def)
    have f: "finishing (dirWorkers c) = Suc (finishing ((dirWorkers c)[i := DRecv]))"
      using fi [of DRecv] DFinish by simp
    have m: "mset (workingOn ((dirWorkers c)[i := DRecv])) = mset (workingOn (dirWorkers c))"
      using wo [of DRecv] DFinish by simp
    have l: "length (workingOn ((dirWorkers c)[i := DRecv])) = length (workingOn (dirWorkers c))"
      using lwo [of DRecv] DFinish by simp
    have before: "beforeBarrier (pc c)"
    proof (rule ccontr)
      assume "\<not> beforeBarrier (pc c)"
      with inv have "wgDir c = 0" by (simp add: phaseInv_def)
      with inv f show False by (simp add: phaseInv_def)
    qed
    show ?thesis
      using inv before unfolding c' phaseInv_def by (auto simp: f m l)
  next
    case DExit
    with step i show ?thesis by (simp add: dirWorkerStep_def)
  qed
qed

lemma phaseInv_mediaWorker:
  assumes inv: "phaseInv g directories c"
    and step: "mediaWorkerStep e parallelUploads i c = Some c'"
  shows "phaseInv g directories c'"
proof -
  from step have "mediaWorkers c \<noteq> []"
    by (auto simp: mediaWorkerStep_def split: if_splits)
  with inv have after: "\<not> beforeBarrier (pc c)"
    by (auto simp: phaseInv_def)
  from step have same: "pc c' = pc c" "dirJobs c' = dirJobs c" "dirWorkers c' = dirWorkers c"
      "dirDone c' = dirDone c" "wgDir c' = wgDir c"
    by (auto simp: mediaWorkerStep_def Let_def split: if_splits uworker.splits list.splits prod.splits)
  show ?thesis
    using inv after unfolding phaseInv_def same by auto
qed

lemma phaseInv_sender:
  assumes inv: "phaseInv g directories c"
    and step: "senderStep c = Some c'"
  shows "phaseInv g directories c'"
proof -
  from step have "senderpc c \<noteq> SNone"
    by (auto simp: senderStep_def)
  with inv have after: "\<not> beforeBarrier (pc c)"
    by (auto simp: phaseInv_def)
  from step have same: "pc c' = pc c" "dirJobs c' = dirJobs c" "dirWorkers c' = dirWorkers c"
      "dirDone c' = dirDone c" "wgDir c' = wgDir c"
    by (auto simp: senderStep_def split: sender.splits list.splits prod.splits)
  show ?thesis
    using inv after unfolding phaseInv_def same by auto
qed

lemma phaseInv_closer:
  assumes inv: "phaseInv g directories c"
    and step: "closerStep c = Some c'"
  shows "phaseInv g directories c'"
proof -
  from step have c': "c' = c\<lparr>progressClosed := True, closerpc := CExit\<rparr>"
    by (auto simp: closerStep_def split: closer.splits if_splits)
  show ?thesis
    using inv unfolding c' phaseInv_def by auto
qed

lemma phaseInv_fire:
  assumes "phaseInv g directories c"
    and "fire e parallelUploads directories entries a c = Some c'"
  shows "phaseInv g directories c'"
  using assms
  by (cases a)
     (auto intro: phaseInv_main phaseInv_dirWorker phaseInv_mediaWorker phaseInv_sender phaseInv_closer)

lemma phaseInv_run:
  assumes "phaseInv g directories c"
    and "run e parallelUploads directories entries sched c = Some c'"
  shows "phaseInv g directories c'"
  using assms
proof (induction sched arbitrary: c)
  case Nil
  then show ?case by simp
next
  case (Cons a sched)
  then obtain c1 where f: "fire e parallelUploads directories entries a c = Some c1"
      and r: "run e parallelUploads directories entries sched c1 = Some c'"
    by (auto split: option.splits)
  from Cons.IH [OF phaseInv_fire [OF Cons.prems(1) f] r] show ?case .
qed

lemma phaseInv_barrier:
  assumes inv: "phaseInv g directories c" and begun: "uploadBegun g c"
  shows "provisioningDone directories c"
proof -
  have after: "\<not> beforeBarrier (pc c)"
    using inv begun by (auto simp: phaseInv_def uploadBegun_def)
  with inv have zero: "wgDir c = 0"
    by (simp add: phaseInv_def)
  from inv have "wgDir c = int (length (remaining directories (pc c)) + length (dirJobs c)
      + length (workingOn (dirWorkers c)) + finishing (dirWorkers c))"
    unfolding phaseInv_def by blast
  with zero have "length (remaining directories (pc c)) + length (dirJobs c)
      + length (workingOn (dirWorkers c)) + finishing (dirWorkers c) = 0"
    by linarith
  then have none: "remaining directories (pc c) = []" "dirJobs c = []"
      "workingOn (dirWorkers c) = []" "finishing (dirWorkers c) = 0"
    by simp_all
  with inv have "mset (dirDone c) = mset directories"
    by (simp add: phaseInv_def)
  then show ?thesis
    using zero none idle_workers [OF none(3) none(4)]
    by (simp add: provisioningDone_def)
qed

text \<open>
  Claim C6. In every state a schedule reaches from the start of
  \<^verbatim>\<open>uploadMediaFilesToNextcloud\<close>, once the second phase has begun (the sending goroutine
  is started, a job is scheduled, an upload worker exists or an upload request has been
  sent) every directory submitted has had its call of \<^verbatim>\<open>createNestedDirectories\<close> return,
  with its error logged if it failed, and no directory is left in the channel or with a
  worker.
\<close>

theorem provisioning_barrier:
  assumes "run e parallelUploads directories entries sched (init g directories) = Some c"
    and "uploadBegun g c"
  shows "provisioningDone directories c"
  using phaseInv_barrier [OF phaseInv_run [OF phaseInv_init assms(1)] assms(2)] .

text \<open>
  The theorem on the schedule \<open>oneFile\<close>: the two directory requests come before the
  upload request.
\<close>

theorem provisioning_barrier_witness:
  "\<exists>c. run (world [] [] [] 201) 1 [''2020/09''] [(''/p/a.jpg'', ''2020/09'')] oneFile
           (init g0 [''2020/09'']) = Some c
       \<and> uploadBegun g0 c
       \<and> provisioningDone [''2020/09''] c
       \<and> requests (out (glob c)) =
           [(''MKCOL'', ''http://nc/2020''), (''MKCOL'', ''http://nc/2020/09''),
            (''PUT'', ''http://nc/2020/09/a.jpg'')]"
proof -
  let ?r = "run (world [] [] [] 201) 1 [''2020/09''] [(''/p/a.jpg'', ''2020/09'')] oneFile
              (init g0 [''2020/09''])"
  have sch: "map_option scheduled ?r = Some [\<lparr>Path = ''/p/a.jpg'', Ts = ''2020/09''\<rparr>]"
    by code_simp
  have req: "map_option (\<lambda>c. requests (out (glob c))) ?r =
      Some [(''MKCOL'', ''http://nc/2020''), (''MKCOL'', ''http://nc/2020/09''),
            (''PUT'', ''http://nc/2020/09/a.jpg'')]"
    by code_simp
  from sch obtain c where c: "?r = Some c" and s: "scheduled c = [\<lparr>Path = ''/p/a.jpg'', Ts = ''2020/09''\<rparr>]"
    by auto
  from s have begun: "uploadBegun g0 c"
    by (simp add: uploadBegun_def)
  from provisioning_barrier [OF c begun] have prov: "provisioningDone [''2020/09''] c" .
  from req c have "requests (out (glob c)) =
      [(''MKCOL'', ''http://nc/2020''), (''MKCOL'', ''http://nc/2020/09''),
       (''PUT'', ''http://nc/2020/09/a.jpg'')]"
    by simp
  with c begun prov show ?thesis by blast
qed

end
